theory Spec2Isabelle
  imports Main "HOL-Library.Sublist"
begin

section \<open>Gentoo network helper: values, strings and the host\<close>

text \<open>
  The module \<^verbatim>\<open>commands/gentoo/network.py\<close> renders \<^verbatim>\<open>/etc/conf.d/net\<close> in two
  dialects, renders and reads \<^verbatim>\<open>/etc/conf.d/hostname\<close>, and applies a configuration by
  writing files, setting the hostname and restarting every interface.  Python strings are
  \<^typ>\<open>string\<close>; an exception that leaves a function is the \<open>Inl\<close> branch of a sum.
\<close>

datatype error =
    KeyError string
  | UnboundLocalError string

text \<open>A dictionary value that is either \<^verbatim>\<open>None\<close> or a string.\<close>

datatype pyval = PyNone | PyStr string

fun truthy :: "pyval \<Rightarrow> bool" where
  "truthy PyNone = False"
| "truthy (PyStr s) = (s \<noteq> [])"

fun py_str :: "pyval \<Rightarrow> string" where
  "py_str PyNone = ''None''"
| "py_str (PyStr s) = s"

text \<open>\<^verbatim>\<open>sep.join(items)\<close>.\<close>

fun join :: "string \<Rightarrow> string list \<Rightarrow> string" where
  "join sep [] = []"
| "join sep [x] = x"
| "join sep (x # y # ys) = x @ sep @ join sep (y # ys)"

text \<open>Decimal rendering of a number, as \<^verbatim>\<open>{0}\<close> and \<^verbatim>\<open>%d\<close> format an integer.\<close>

definition digit_char :: "nat \<Rightarrow> char" where
  "digit_char d = ''0123456789'' ! d"

fun str_nat :: "nat \<Rightarrow> string" where
  "str_nat n = (if n < 10 then [digit_char n] else str_nat (n div 10) @ [digit_char (n mod 10)])"

declare str_nat.simps [simp del]

definition str_int :: "int \<Rightarrow> string" where
  "str_int i = (if i < 0 then CHR ''-'' # str_nat (nat (- i)) else str_nat (nat i))"

text \<open>
  What the module reads from its host and from its collaborators
  \<^verbatim>\<open>commands.network\<close> and \<^verbatim>\<open>commands.utils\<close>, whose code is not part of the module:
  the program name \<^verbatim>\<open>sys.argv[0]\<close>, the answer of \<^verbatim>\<open>is_system_command("ip")\<close>, and
  the table \<^verbatim>\<open>NETMASK_TO_PREFIXLEN\<close>.  The reading of the clock, \<^verbatim>\<open>datetime.now()\<close>
  as text, is an argument \<open>now\<close> of each function that builds a header.
\<close>

record host =
  argv0 :: string
  ip_is_system_command :: bool
  NETMASK_TO_PREFIXLEN :: "string \<rightharpoonup> nat"

section \<open>The interface description\<close>

record ip4 =
  ip4_address :: string
  ip4_netmask :: string

record ip6 =
  ip6_address :: string
  ip6_prefixlen :: nat

record route =
  route_network :: string
  route_netmask :: string
  route_gateway :: string

text \<open>
  The keys \<^verbatim>\<open>gateway4\<close> and \<^verbatim>\<open>gateway6\<close> may be missing from the dictionary
  (\<open>None\<close>); when present their value is \<^verbatim>\<open>None\<close> or a string.  The mapping of
  interface names to descriptions is the list of its items in iteration order.
\<close>

record interface =
  label :: pyval
  ip4s :: "ip4 list"
  ip6s :: "ip6 list"
  routes :: "route list"
  gateway4 :: "pyval option"
  gateway6 :: "pyval option"
  dns :: "string list"

type_synonym interfaces = "(string \<times> interface) list"

section \<open>Rendering\<close>

definition header :: "host \<Rightarrow> string \<Rightarrow> string" where
  "header h now =
     ''# Creator: NOVA AGENT:\<newline>        # This file was autogenerated at '' @ now @ '' by ''
       @ argv0 h
       @ ''.\<newline>        # While it can still be managed manually, definitely not recommended.\<newline>        ''"

definition get_hostname_file :: "host \<Rightarrow> string \<Rightarrow> string \<Rightarrow> string" where
  \<open>get_hostname_file h now hostname =
     join ''\<newline>'' [''# Set to the hostname of this machine'', header h now,
       ''HOSTNAME="'' @ hostname @ ''"'']\<close>

definition modules_line :: "host \<Rightarrow> string" where
  \<open>modules_line h =
     (if ip_is_system_command h then ''modules="iproute2"'' else ''modules="ifconfig"'')\<close>

text \<open>A list comprehension whose element expression may raise: the first error wins.\<close>

fun collect :: "('a \<Rightarrow> error + 'b) \<Rightarrow> 'a list \<Rightarrow> error + 'b list" where
  "collect f [] = Inr []"
| "collect f (x # xs) =
     (case f x of
        Inl e \<Rightarrow> Inl e
      | Inr y \<Rightarrow> (case collect f xs of Inl e \<Rightarrow> Inl e | Inr ys \<Rightarrow> Inr (y # ys)))"

text \<open>
  The condition of the route comprehension, the same in both dialects:
  \<^verbatim>\<open>not route['network'] == '0.0.0.0' and not route['netmask'] == '0.0.0.0' and
  'gateway4' in interface and not route['gateway'] == interface['gateway4']\<close>.
\<close>

definition route_listed :: "interface \<Rightarrow> route \<Rightarrow> bool" where
  "route_listed i r =
     (\<not> route_network r = ''0.0.0.0'' \<and> \<not> route_netmask r = ''0.0.0.0'' \<and>
      gateway4 i \<noteq> None \<and> \<not> Some (PyStr (route_gateway r)) = gateway4 i)"

definition label_lines :: "interface \<Rightarrow> string list" where
  "label_lines i = (if truthy (label i) then [''# Label '' @ py_str (label i)] else [])"

subsection \<open>The OpenRC dialect\<close>

definition ip4_line :: "host \<Rightarrow> ip4 \<Rightarrow> error + string" where
  "ip4_line h ip =
     (case NETMASK_TO_PREFIXLEN h (ip4_netmask ip) of
        None \<Rightarrow> Inl (KeyError (ip4_netmask ip))
      | Some p \<Rightarrow> Inr (''  '' @ ip4_address ip @ ''/'' @ str_nat p))"

definition ip6_line :: "ip6 \<Rightarrow> string" where
  "ip6_line ip = ''  '' @ ip6_address ip @ ''/'' @ str_nat (ip6_prefixlen ip)"

definition route_line :: "host \<Rightarrow> route \<Rightarrow> error + string" where
  "route_line h r =
     (case NETMASK_TO_PREFIXLEN h (route_netmask r) of
        None \<Rightarrow> Inl (KeyError (route_netmask r))
      | Some p \<Rightarrow>
          Inr (''  '' @ route_network r @ ''/'' @ str_nat p @ '' via '' @ route_gateway r))"

definition default_line :: "pyval option \<Rightarrow> string list" where
  "default_line g =
     (case g of
        None \<Rightarrow> []
      | Some v \<Rightarrow> if truthy v then [''  default via '' @ py_str v] else [])"

definition config_open :: "string \<Rightarrow> string" where
  \<open>config_open name = ''config_'' @ name @ ''="''\<close>

definition routes_open :: "string \<Rightarrow> string" where
  \<open>routes_open name = ''routes_'' @ name @ ''="''\<close>

definition config_block :: "host \<Rightarrow> string \<Rightarrow> interface \<Rightarrow> error + string list" where
  \<open>config_block h name i =
     (case collect (ip4_line h) (ip4s i) of
        Inl e \<Rightarrow> Inl e
      | Inr a4 \<Rightarrow> Inr ([config_open name] @ a4 @ map ip6_line (ip6s i) @ [''"'', '''']))\<close>

definition routes_block :: "host \<Rightarrow> string \<Rightarrow> interface \<Rightarrow> error + string list" where
  \<open>routes_block h name i =
     (case collect (route_line h) (filter (route_listed i) (routes i)) of
        Inl e \<Rightarrow> Inl e
      | Inr rs \<Rightarrow>
          Inr ([routes_open name] @ rs @ default_line (gateway4 i) @ default_line (gateway6 i)
                 @ [''"'', '''']))\<close>

definition dns_block :: "string \<Rightarrow> interface \<Rightarrow> string list" where
  \<open>dns_block name i =
     (if dns i \<noteq> []
      then [''dns_servers_'' @ name @ ''="'' @ join ''\<newline>'' (dns i) @ ''"\<newline>'', '''']
      else [])\<close>

text \<open>The lines one turn of the loop over \<^verbatim>\<open>interfaces.iteritems()\<close> appends.\<close>

definition confd_net_iface :: "host \<Rightarrow> string \<Rightarrow> interface \<Rightarrow> error + string list" where
  "confd_net_iface h name i =
     (case config_block h name i of
        Inl e \<Rightarrow> Inl e
      | Inr cs \<Rightarrow>
          (case routes_block h name i of
             Inl e \<Rightarrow> Inl e
           | Inr rs \<Rightarrow> Inr (label_lines i @ cs @ rs @ dns_block name i)))"

fun confd_net_loop ::
  "host \<Rightarrow> interfaces \<Rightarrow> string list \<Rightarrow> string set \<Rightarrow> error + (string list \<times> string set)" where
  "confd_net_loop h [] lines ifaces = Inr (lines, ifaces)"
| "confd_net_loop h ((name, i) # rest) lines ifaces =
     (case confd_net_iface h name i of
        Inl e \<Rightarrow> Inl e
      | Inr new \<Rightarrow> confd_net_loop h rest (lines @ new) (insert name ifaces))"

definition confd_net_file :: "host \<Rightarrow> string \<Rightarrow> interfaces \<Rightarrow> error + (string \<times> string set)" where
  "confd_net_file h now ifs =
     (case confd_net_loop h ifs [header h now, '''', modules_line h, '''', ''''] {} of
        Inl e \<Rightarrow> Inl e
      | Inr (lines, ifaces) \<Rightarrow> Inr (join ''\<newline>'' lines, ifaces))"

subsection \<open>The legacy dialect\<close>

definition ip4_line_legacy :: "ip4 \<Rightarrow> string" where
  \<open>ip4_line_legacy ip = ''  "'' @ ip4_address ip @ '' netmask '' @ ip4_netmask ip @ ''"''\<close>

definition ip6_line_legacy :: "ip6 \<Rightarrow> string" where
  \<open>ip6_line_legacy ip = ''  "'' @ ip6_address ip @ ''/'' @ str_nat (ip6_prefixlen ip) @ ''"''\<close>

definition route_line_legacy :: "route \<Rightarrow> string" where
  \<open>route_line_legacy r =
     ''  "'' @ route_network r @ '' netmask '' @ route_netmask r @ '' gw '' @ route_gateway r
       @ ''"''\<close>

definition default_line_legacy :: "pyval option \<Rightarrow> string list" where
  \<open>default_line_legacy g =
     (case g of
        None \<Rightarrow> []
      | Some v \<Rightarrow> if truthy v then [''  "default via '' @ py_str v @ ''"''] else [])\<close>

definition config_open_legacy :: "string \<Rightarrow> string" where
  "config_open_legacy name = ''config_'' @ name @ ''=(''"

definition routes_open_legacy :: "string \<Rightarrow> string" where
  "routes_open_legacy name = ''routes_'' @ name @ ''=(''"

definition config_block_legacy :: "string \<Rightarrow> interface \<Rightarrow> string list" where
  "config_block_legacy name i =
     [config_open_legacy name] @ map ip4_line_legacy (ip4s i) @ map ip6_line_legacy (ip6s i)
       @ ['')'', '''']"

definition routes_block_legacy :: "string \<Rightarrow> interface \<Rightarrow> string list" where
  "routes_block_legacy name i =
     [routes_open_legacy name] @ map route_line_legacy (filter (route_listed i) (routes i))
       @ default_line_legacy (gateway4 i) @ default_line_legacy (gateway6 i) @ ['')'', '''']"

definition dns_block_legacy :: "string \<Rightarrow> interface \<Rightarrow> string list" where
  \<open>dns_block_legacy name i =
     (if dns i \<noteq> []
      then [''dns_servers_'' @ name @ ''=(''] @ map (\<lambda>d. '' "'' @ d @ ''"'') (dns i) @ ['')'', '''']
      else [])\<close>

definition confd_net_iface_legacy :: "string \<Rightarrow> interface \<Rightarrow> string list" where
  "confd_net_iface_legacy name i =
     label_lines i @ config_block_legacy name i @ routes_block_legacy name i
       @ dns_block_legacy name i"

fun confd_net_loop_legacy ::
  "interfaces \<Rightarrow> string list \<Rightarrow> string set \<Rightarrow> string list \<times> string set" where
  "confd_net_loop_legacy [] lines ifaces = (lines, ifaces)"
| "confd_net_loop_legacy ((name, i) # rest) lines ifaces =
     confd_net_loop_legacy rest (lines @ confd_net_iface_legacy name i) (insert name ifaces)"

definition confd_net_file_legacy :: "host \<Rightarrow> string \<Rightarrow> interfaces \<Rightarrow> string \<times> string set" where
  "confd_net_file_legacy h now ifs =
     (case confd_net_loop_legacy ifs [header h now, '''', modules_line h, '''', ''''] {} of
        (lines, ifaces) \<Rightarrow> (join ''\<newline>'' lines, ifaces))"

subsection \<open>Choosing the dialect\<close>

definition get_interface_files ::
  "host \<Rightarrow> string \<Rightarrow> interfaces \<Rightarrow> string \<Rightarrow> error + (string \<rightharpoonup> string)" where
  "get_interface_files h now ifs version =
     (if version = ''openrc''
      then (case confd_net_file h now ifs of
              Inl e \<Rightarrow> Inl e
            | Inr (data, ifaces) \<Rightarrow> Inr [''net'' \<mapsto> data])
      else (case confd_net_file_legacy h now ifs of
              (data, ifaces) \<Rightarrow> Inr [''net'' \<mapsto> data]))"

section \<open>Reading the hostname\<close>

definition HOSTNAME_FILE :: string where
  "HOSTNAME_FILE = ''/etc/conf.d/hostname''"

definition NETWORK_FILE :: string where
  "NETWORK_FILE = ''/etc/conf.d/net''"

text \<open>
  A file system answers \<^verbatim>\<open>open(path)\<close> followed by \<^verbatim>\<open>readlines()\<close> either with the
  text of the exception raised (\<open>Inl\<close>) or with the content of the file (\<open>Inr\<close>).
  \<^verbatim>\<open>readlines\<close> cuts the content after every newline and keeps the newline.
\<close>

type_synonym filesystem = "string \<Rightarrow> string + string"

fun readlines :: "string \<Rightarrow> string list" where
  "readlines [] = []"
| "readlines (c # cs) =
     (if c = CHR ''\<newline>'' then [c] # readlines cs
      else (case readlines cs of
              [] \<Rightarrow> [[c]]
            | l # ls \<Rightarrow> (c # l) # ls))"

text \<open>
  \<^verbatim>\<open>re.search('HOSTNAME="(.*)"', line)\<close>: the leftmost position where the pattern
  matches; there the group \<^verbatim>\<open>(.*)\<close> first takes every character up to the next newline
  and gives characters back one at a time until a double quote follows it.
\<close>

fun dotstar_quote :: "string \<Rightarrow> nat \<Rightarrow> string option" where
  "dotstar_quote rest 0 = (if take 1 rest = [CHR 0x22] then Some [] else None)"
| "dotstar_quote rest (Suc k) =
     (if take 1 (drop (Suc k) rest) = [CHR 0x22] then Some (take (Suc k) rest)
      else dotstar_quote rest k)"

definition match_here :: "string \<Rightarrow> string option" where
  \<open>match_here s =
     (if prefix ''HOSTNAME="'' s
      then (let rest = drop 10 s
            in dotstar_quote rest (length (takeWhile (\<lambda>c. c \<noteq> CHR ''\<newline>'') rest)))
      else None)\<close>

fun re_search :: "string \<Rightarrow> string option" where
  "re_search [] = match_here []"
| "re_search (c # cs) =
     (case match_here (c # cs) of
        Some g \<Rightarrow> Some g
      | None \<Rightarrow> re_search cs)"

fun first_hostname :: "string list \<Rightarrow> string option" where
  "first_hostname [] = None"
| "first_hostname (line # rest) =
     (case re_search line of
        Some hn \<Rightarrow> Some hn
      | None \<Rightarrow> first_hostname rest)"

definition get_hostname :: "filesystem \<Rightarrow> string option" where
  "get_hostname fs =
     (case fs HOSTNAME_FILE of
        Inl e \<Rightarrow> None
      | Inr content \<Rightarrow> first_hostname (readlines content))"

section \<open>Applying a configuration\<close>

text \<open>
  The live system as \<^verbatim>\<open>configure_network\<close> changes it: the files written, the
  hostname, the init scripts that exist, and the subprocesses run so far, in order.
\<close>

datatype proc = IpAddressFlush string | InitScriptRestart string

record system =
  files :: "string \<rightharpoonup> string"
  live_hostname :: string
  init_scripts :: "string set"
  procs :: "proc list"

text \<open>
  What the run meets: the host, whether \<^verbatim>\<open>/sbin/rc\<close> is a file, the two readings of the
  clock, the collaborators \<^verbatim>\<open>get_resolv_conf\<close> and \<^verbatim>\<open>get_etc_hosts\<close>, the text of the
  exception \<^verbatim>\<open>sethostname\<close> raises (if it raises), the order in which the loop walks the
  set of interface names, and the status \<^verbatim>\<open>os.waitpid\<close> reports for each subprocess.
  The collaborators \<^verbatim>\<open>get_resolv_conf\<close>, \<^verbatim>\<open>get_etc_hosts\<close> and \<^verbatim>\<open>update_files\<close>, the
  creation of a symlink and the start of a subprocess are taken to return; only the
  exception of \<^verbatim>\<open>sethostname\<close>, which the code catches, is a branch.
\<close>

record world =
  this_host :: host
  sbin_rc_is_file :: bool
  now_net :: string
  now_hostname :: string
  get_resolv_conf :: "interfaces \<Rightarrow> string \<times> string"
  get_etc_hosts :: "interfaces \<Rightarrow> string \<Rightarrow> string \<times> string"
  sethostname_error :: "string \<Rightarrow> string option"
  set_order :: "string set \<Rightarrow> string list"
  flush_status :: "string \<Rightarrow> int"
  restart_status :: "string \<Rightarrow> int"

definition clean_assigned_ip :: "world \<Rightarrow> string \<Rightarrow> system \<Rightarrow> bool \<times> system" where
  "clean_assigned_ip w ifname s =
     (let s' = s\<lparr>procs := procs s @ [IpAddressFlush ifname]\<rparr>;
          status = flush_status w ifname
      in if status \<noteq> 0 then (False, s') else (True, s'))"

definition restart_iface :: "world \<Rightarrow> string \<Rightarrow> system \<Rightarrow> int \<times> system" where
  "restart_iface w ifname s =
     (let scriptpath = ''/etc/init.d/net.'' @ ifname;
          s1 = (if scriptpath \<in> init_scripts s then s
                else s\<lparr>init_scripts := insert scriptpath (init_scripts s)\<rparr>);
          s2 = s1\<lparr>procs := procs s1 @ [InitScriptRestart ifname]\<rparr>
      in (restart_status w ifname, s2))"

text \<open>
  The loop over the interface names.  The local variable \<^verbatim>\<open>status\<close> of
  \<^verbatim>\<open>configure_network\<close> is \<open>None\<close> until the first restart has assigned it.
\<close>

fun restart_loop ::
  "world \<Rightarrow> string list \<Rightarrow> int option \<Rightarrow> system \<Rightarrow> (error + int \<times> string) \<times> system" where
  "restart_loop w [] status s = (Inr (0, ''''), s)"
| "restart_loop w (ifname # rest) status s =
     (let (cleaned, s1) =
            (if ip_is_system_command (this_host w) then clean_assigned_ip w ifname s
             else (True, s))
      in if \<not> cleaned then
           (case status of
              None \<Rightarrow> (Inl (UnboundLocalError ''status''), s1)
            | Some st \<Rightarrow>
                (Inr (500, ''Couldn't flush network '' @ ifname @ '': '' @ str_int st), s1))
         else
           (case restart_iface w ifname s1 of
              (status', s2) \<Rightarrow>
                if status' \<noteq> 0 then
                  (Inr (500, ''Couldn't restart network '' @ ifname @ '': '' @ str_int status'),
                   s2)
                else restart_loop w rest (Some status') s2))"

definition render_net :: "world \<Rightarrow> interfaces \<Rightarrow> error + (string \<times> string set)" where
  "render_net w ifs =
     (if sbin_rc_is_file w then confd_net_file (this_host w) (now_net w) ifs
      else Inr (confd_net_file_legacy (this_host w) (now_net w) ifs))"

definition update_files :: "world \<Rightarrow> string \<Rightarrow> interfaces \<Rightarrow> string \<Rightarrow> (string \<rightharpoonup> string)" where
  "update_files w hostname ifs data =
     (let u1 = [NETWORK_FILE \<mapsto> data];
          (filepath, rdata) = get_resolv_conf w ifs;
          u2 = (if rdata \<noteq> [] then u1(filepath \<mapsto> rdata) else u1);
          u3 = u2(HOSTNAME_FILE \<mapsto> get_hostname_file (this_host w) (now_hostname w) hostname);
          (hpath, hdata) = get_etc_hosts w ifs hostname
      in u3(hpath \<mapsto> hdata))"

definition configure_network ::
  "world \<Rightarrow> system \<Rightarrow> string \<Rightarrow> interfaces \<Rightarrow> (error + int \<times> string) \<times> system" where
  "configure_network w s hostname ifs =
     (case render_net w ifs of
        Inl e \<Rightarrow> (Inl e, s)
      | Inr (data, ifaces) \<Rightarrow>
          (let s1 = s\<lparr>files := files s ++ update_files w hostname ifs data\<rparr>
           in case sethostname_error w hostname of
                Some msg \<Rightarrow> (Inr (500, ''Couldn't set hostname: '' @ msg), s1)
              | None \<Rightarrow>
                  restart_loop w (set_order w ifaces) None (s1\<lparr>live_hostname := hostname\<rparr>)))"

section \<open>Notions used to state the properties\<close>

text \<open>Every netmask of an IPv4 address or of a route has an entry in the table.\<close>

definition netmasks_valid :: "host \<Rightarrow> interfaces \<Rightarrow> bool" where
  "netmasks_valid h ifs =
     list_all (\<lambda>(name, i).
        list_all (\<lambda>ip. NETMASK_TO_PREFIXLEN h (ip4_netmask ip) \<noteq> None) (ip4s i) \<and>
        list_all (\<lambda>r. NETMASK_TO_PREFIXLEN h (route_netmask r) \<noteq> None) (routes i)) ifs"

text \<open>
  The rule for leaving a route out of the explicit list as the specification words it:
  network and netmask are both \<^verbatim>\<open>0.0.0.0\<close>, the interface declares \<^verbatim>\<open>gateway4\<close>, and
  the gateway of the route equals it.
\<close>

definition spec_excluded :: "interface \<Rightarrow> route \<Rightarrow> bool" where
  "spec_excluded i r =
     (route_network r = ''0.0.0.0'' \<and> route_netmask r = ''0.0.0.0'' \<and>
      gateway4 i \<noteq> None \<and> Some (PyStr (route_gateway r)) = gateway4 i)"

text \<open>The subprocesses one complete turn of the restart loop runs for an interface.\<close>

definition procs_of :: "world \<Rightarrow> string \<Rightarrow> proc list" where
  "procs_of w ifname =
     (if ip_is_system_command (this_host w) then [IpAddressFlush ifname] else [])
       @ [InitScriptRestart ifname]"

definition scriptpath_of :: "string \<Rightarrow> string" where
  "scriptpath_of ifname = ''/etc/init.d/net.'' @ ifname"

subsection \<open>Example inputs\<close>

definition example_host :: host where
  "example_host = \<lparr> argv0 = ''nova-agent'', ip_is_system_command = True,
     NETMASK_TO_PREFIXLEN = [''255.255.255.0'' \<mapsto> 24, ''0.0.0.0'' \<mapsto> 0] \<rparr>"

text \<open>The interface of the specification's end-to-end example.\<close>

definition example_eth0 :: interface where
  "example_eth0 = \<lparr> label = PyStr '''',
     ip4s = [\<lparr> ip4_address = ''192.168.0.100'', ip4_netmask = ''255.255.255.0'' \<rparr>],
     ip6s = [],
     routes = [\<lparr> route_network = ''0.0.0.0'', route_netmask = ''0.0.0.0'',
                route_gateway = ''192.168.0.1'' \<rparr>],
     gateway4 = Some (PyStr ''192.168.0.1''), gateway6 = Some PyNone, dns = [] \<rparr>"

text \<open>
  The configuration of the module's docstring: a default route and a route to
  \<^verbatim>\<open>172.100.100.0/24\<close>, both through \<^verbatim>\<open>192.168.0.1\<close>.
\<close>

definition docstring_route :: route where
  "docstring_route = \<lparr> route_network = ''172.100.100.0'', route_netmask = ''255.255.255.0'',
     route_gateway = ''192.168.0.1'' \<rparr>"

definition docstring_eth0 :: interface where
  "docstring_eth0 = \<lparr> label = PyNone,
     ip4s = [\<lparr> ip4_address = ''192.168.0.100'', ip4_netmask = ''255.255.255.0'' \<rparr>],
     ip6s = [],
     routes = [docstring_route],
     gateway4 = Some (PyStr ''192.168.0.1''), gateway6 = None, dns = [] \<rparr>"

definition example_system :: system where
  "example_system = \<lparr> files = Map.empty, live_hostname = ''localhost'', init_scripts = {},
     procs = [] \<rparr>"

text \<open>A host with OpenRC where every address flush ends with status 2.\<close>

definition flush_fails_world :: world where
  "flush_fails_world = \<lparr> this_host = example_host, sbin_rc_is_file = True,
     now_net = ''2011-06-01 12:00:00.000001'', now_hostname = ''2011-06-01 12:00:00.000002'',
     get_resolv_conf = (\<lambda>ifs. (''/etc/resolv.conf'', '''')),
     get_etc_hosts = (\<lambda>ifs hostname. (''/etc/hosts'', ''127.0.0.1 localhost'')),
     sethostname_error = (\<lambda>hostname. None),
     set_order = (\<lambda>S. if S = {''eth0''} then [''eth0''] else []),
     flush_status = (\<lambda>ifname. 2),
     restart_status = (\<lambda>ifname. 0) \<rparr>"

text \<open>
  A legacy host with three interfaces, walked in the order eth1, eth0, eth2, where the
  restart of eth0 ends with status 256.
\<close>

definition restart_fails_world :: world where
  "restart_fails_world = \<lparr> this_host = example_host, sbin_rc_is_file = False,
     now_net = ''2011-06-01 12:00:00.000001'', now_hostname = ''2011-06-01 12:00:00.000002'',
     get_resolv_conf = (\<lambda>ifs. (''/etc/resolv.conf'', ''nameserver 8.8.8.8'')),
     get_etc_hosts = (\<lambda>ifs hostname. (''/etc/hosts'', ''127.0.0.1 localhost'')),
     sethostname_error = (\<lambda>hostname. None),
     set_order = (\<lambda>S. if S = {''eth0'', ''eth1'', ''eth2''} then [''eth1'', ''eth0'', ''eth2'']
                      else []),
     flush_status = (\<lambda>ifname. 0),
     restart_status = (\<lambda>ifname. if ifname = ''eth0'' then 256 else 0) \<rparr>"

definition three_interfaces :: interfaces where
  "three_interfaces = [(''eth0'', example_eth0), (''eth1'', docstring_eth0), (''eth2'', example_eth0)]"

definition missing_fs :: filesystem where
  "missing_fs = (\<lambda>path. Inl ''[Errno 2] No such file or directory'')"

definition written_fs :: filesystem where
  "written_fs = (\<lambda>path. if path = HOSTNAME_FILE
     then Inr (get_hostname_file example_host ''2011-06-01 12:00:00.000002'' ''myhost'')
     else Inl ''[Errno 2] No such file or directory'')"

definition other_fs :: filesystem where
  "other_fs = (\<lambda>path. if path = HOSTNAME_FILE then Inr ''# no name here\<newline>hostname=x\<newline>''
     else Inl ''[Errno 2] No such file or directory'')"

text \<open>An interface with a route and without the key \<^verbatim>\<open>gateway4\<close>.\<close>

definition lonely_eth1 :: interface where
  "lonely_eth1 = \<lparr> label = PyNone, ip4s = [], ip6s = [],
     routes = [\<lparr> route_network = ''10.0.0.0'', route_netmask = ''255.0.0.0'',
                route_gateway = ''10.1.1.1'' \<rparr>],
     gateway4 = None, gateway6 = None, dns = [] \<rparr>"

subsection \<open>The lines of a rendered text\<close>

text \<open>\<^verbatim>\<open>text.split("\n")\<close>: the lines of a text.\<close>

fun text_lines :: "string \<Rightarrow> string list" where
  "text_lines [] = [[]]"
| "text_lines (c # cs) =
     (if c = CHR ''\<newline>'' then [] # text_lines cs
      else (case text_lines cs of
              [] \<Rightarrow> [[c]]
            | l # ls \<Rightarrow> (c # l) # ls))"

definition lines_of :: "string list \<Rightarrow> string list" where
  "lines_of items = concat (map text_lines items)"

text \<open>
  A block opening is a line of the text that is the opening itself; a DNS block of an
  interface is present when a line of the text starts with \<^verbatim>\<open>dns_servers_<name>=\<close>.
\<close>

definition openings :: "string \<Rightarrow> string \<Rightarrow> nat" where
  "openings text opening = count_list (text_lines text) opening"

definition dns_open :: "string \<Rightarrow> string" where
  "dns_open name = ''dns_servers_'' @ name @ ''=''"

definition dns_present :: "string \<Rightarrow> string \<Rightarrow> bool" where
  "dns_present text name = list_ex (prefix (dns_open name)) (text_lines text)"

text \<open>
  Strings that cannot forge a line: no newline in any string of the interface mapping, and
  no equals sign in a DNS entry.
\<close>

definition no_newline :: "string \<Rightarrow> bool" where
  "no_newline s = (CHR ''\<newline>'' \<notin> set s)"

definition no_equals :: "string \<Rightarrow> bool" where
  "no_equals s = (CHR ''='' \<notin> set s)"

definition plain_gateway :: "pyval option \<Rightarrow> bool" where
  "plain_gateway g = (case g of None \<Rightarrow> True | Some v \<Rightarrow> no_newline (py_str v))"

definition plain_interface :: "interface \<Rightarrow> bool" where
  "plain_interface i =
     (no_newline (py_str (label i)) \<and>
      list_all (\<lambda>ip. no_newline (ip4_address ip) \<and> no_newline (ip4_netmask ip)) (ip4s i) \<and>
      list_all (\<lambda>ip. no_newline (ip6_address ip)) (ip6s i) \<and>
      list_all (\<lambda>r. no_newline (route_network r) \<and> no_newline (route_netmask r) \<and>
                    no_newline (route_gateway r)) (routes i) \<and>
      plain_gateway (gateway4 i) \<and> plain_gateway (gateway6 i) \<and>
      list_all (\<lambda>d. no_newline d \<and> no_equals d) (dns i))"

definition plain_interfaces :: "interfaces \<Rightarrow> bool" where
  "plain_interfaces ifs = list_all (\<lambda>(name, i). no_newline name \<and> plain_interface i) ifs"

text \<open>
  Lines that are no opening of any block: without an equals sign, or starting with a
  hash, a space or \<^verbatim>\<open>m\<close>.
\<close>

definition filler :: "string \<Rightarrow> bool" where
  "filler l =
     (no_equals l \<or>
      (case l of [] \<Rightarrow> False | c # cs \<Rightarrow> c = CHR ''#'' \<or> c = CHR '' '' \<or> c = CHR ''m''))"

text \<open>
  The lines an interface contributes: filler, the opening of its config block, filler, the
  opening of its routes block, and then filler or, when it has DNS entries, lines that
  start its DNS block.
\<close>

definition shaped :: "string \<Rightarrow> string \<Rightarrow> string \<Rightarrow> bool \<Rightarrow> string list \<Rightarrow> bool" where
  "shaped copen ropen dopen has_dns ls =
     (\<exists>A B C. ls = A @ [copen] @ B @ [ropen] @ C \<and>
        list_all filler (A @ B) \<and>
        list_all (\<lambda>l. filler l \<or> has_dns \<and> prefix dopen l) C \<and>
        (has_dns \<longrightarrow> list_ex (prefix dopen) C))"

definition plain_names :: "interfaces \<Rightarrow> bool" where
  "plain_names ifs = list_all (\<lambda>(name, i). no_equals name) ifs"

text \<open>An interface with two DNS entries, and a mapping that holds it beside eth0.\<close>

definition resolver_eth3 :: interface where
  "resolver_eth3 = \<lparr> label = PyStr ''private'',
     ip4s = [\<lparr> ip4_address = ''10.0.0.5'', ip4_netmask = ''255.255.255.0'' \<rparr>],
     ip6s = [\<lparr> ip6_address = ''fe80::5'', ip6_prefixlen = 64 \<rparr>],
     routes = [],
     gateway4 = None, gateway6 = Some (PyStr ''fe80::1''),
     dns = [''8.8.8.8'', ''8.8.4.4''] \<rparr>"

definition two_interfaces :: interfaces where
  "two_interfaces = [(''eth0'', example_eth0), (''eth3'', resolver_eth3)]"

text \<open>
  Interfaces whose label spans several lines: one repeats the openings of the config block
  of eth0 in both dialects, the other starts a DNS block although the interface has no
  DNS entry.
\<close>

definition forged_config_eth0 :: interface where
  \<open>forged_config_eth0 = example_eth0\<lparr> label := PyStr ''x\<newline>config_eth0="\<newline>config_eth0=('' \<rparr>\<close>

definition forged_dns_eth0 :: interface where
  \<open>forged_dns_eth0 = example_eth0\<lparr> label := PyStr ''x\<newline>dns_servers_eth0="1.1.1.1"'' \<rparr>\<close>

section \<open>Properties\<close>

subsection \<open>The hostname file\<close>

lemma get_hostname_file_split:
  \<open>get_hostname_file hst now x =
      (''# Set to the hostname of this machine'' @ ''\<newline>'' @ header hst now @ ''\<newline>'')
        @ (''HOSTNAME="'' @ x @ ''"'') @ []\<close>
  by (simp add: get_hostname_file_def)

text \<open>
  C9: for every hostname \<open>h\<close> the text of \<^verbatim>\<open>get_hostname_file(h)\<close> contains
  \<^verbatim>\<open>HOSTNAME="h"\<close>, with \<open>h\<close> as given; in particular for \<^verbatim>\<open>myhost\<close>.
\<close>

theorem get_hostname_file_contains:
  \<open>sublist (''HOSTNAME="'' @ h @ ''"'') (get_hostname_file hst now h) \<and>
   sublist ''HOSTNAME="myhost"'' (get_hostname_file hst now ''myhost'')\<close>
proof
  show \<open>sublist (''HOSTNAME="'' @ h @ ''"'') (get_hostname_file hst now h)\<close>
    unfolding get_hostname_file_split by (rule sublist_appendI)
  have \<open>sublist (''HOSTNAME="'' @ ''myhost'' @ ''"'') (get_hostname_file hst now ''myhost'')\<close>
    unfolding get_hostname_file_split by (rule sublist_appendI)
  then show \<open>sublist ''HOSTNAME="myhost"'' (get_hostname_file hst now ''myhost'')\<close>
    by simp
qed


subsection \<open>Choosing the dialect\<close>

text \<open>
  C7: \<^verbatim>\<open>get_interface_files\<close> gives the OpenRC rendering of \<^verbatim>\<open>_confd_net_file\<close> under
  the key \<^verbatim>\<open>net\<close> when the version is \<^verbatim>\<open>openrc\<close>, and the legacy rendering of
  \<^verbatim>\<open>_confd_net_file_legacy\<close> for every other version.
\<close>

theorem get_interface_files_dialect:
  "(version = ''openrc'' \<longrightarrow>
      get_interface_files h now ifs version =
        map_sum id (\<lambda>(data, ifaces). [''net'' \<mapsto> data]) (confd_net_file h now ifs)) \<and>
   (version \<noteq> ''openrc'' \<longrightarrow>
      get_interface_files h now ifs version =
        Inr [''net'' \<mapsto> fst (confd_net_file_legacy h now ifs)])"
  by (simp add: get_interface_files_def split: sum.splits prod.splits)

theorem get_interface_files_dialect_witness:
  "get_interface_files example_host ''t'' [(''eth0'', example_eth0)] ''openrc'' =
     map_sum id (\<lambda>(data, ifaces). [''net'' \<mapsto> data])
       (confd_net_file example_host ''t'' [(''eth0'', example_eth0)]) \<and>
   ''baselayout'' \<noteq> ''openrc'' \<and>
   get_interface_files example_host ''t'' [(''eth0'', example_eth0)] ''baselayout'' =
     Inr [''net'' \<mapsto> fst (confd_net_file_legacy example_host ''t'' [(''eth0'', example_eth0)])]"
  using get_interface_files_dialect [of "''openrc''" example_host "''t''" "[(''eth0'', example_eth0)]"]
    get_interface_files_dialect [of "''baselayout''" example_host "''t''" "[(''eth0'', example_eth0)]"]
  by simp

subsection \<open>The route filter\<close>

text \<open>
  C10: when the interface has no key \<^verbatim>\<open>gateway4\<close>, no route passes the filter, so in
  both dialects the routes block holds no line for any route: after its opening come only
  the default line of \<^verbatim>\<open>gateway6\<close> (if any) and the closing.
\<close>

theorem no_gateway4_no_routes:
  assumes "gateway4 i = None"
  shows \<open>filter (route_listed i) (routes i) = [] \<and>
         routes_block h name i = Inr ([routes_open name] @ default_line (gateway6 i) @ [''"'', '''']) \<and>
         routes_block_legacy name i =
           [routes_open_legacy name] @ default_line_legacy (gateway6 i) @ ['')'', '''']\<close>
proof -
  have f: "filter (route_listed i) (routes i) = []"
    using assms by (simp add: route_listed_def)
  show ?thesis
    using assms
    by (simp add: f routes_block_def routes_block_legacy_def default_line_def
        default_line_legacy_def)
qed


theorem no_gateway4_no_routes_witness:
  \<open>gateway4 lonely_eth1 = None \<and>
   filter (route_listed lonely_eth1) (routes lonely_eth1) = [] \<and>
   routes_block example_host ''eth1'' lonely_eth1 = Inr [''routes_eth1="'', ''"'', ''''] \<and>
   routes_block_legacy ''eth1'' lonely_eth1 = [''routes_eth1=('', '')'', '''']\<close>
proof -
  have g: "gateway4 lonely_eth1 = None" by (simp add: lonely_eth1_def)
  have g6: "gateway6 lonely_eth1 = None" by (simp add: lonely_eth1_def)
  show ?thesis
    using g no_gateway4_no_routes [OF g, of example_host "''eth1''"]
    by (simp add: g6 default_line_def default_line_legacy_def routes_open_def
        routes_open_legacy_def)
qed


lemma route_listed_iff:
  "route_listed i r \<longleftrightarrow>
     route_network r \<noteq> ''0.0.0.0'' \<and> route_netmask r \<noteq> ''0.0.0.0'' \<and>
     (\<exists>g. gateway4 i = Some g \<and> g \<noteq> PyStr (route_gateway r))"
  by (auto simp: route_listed_def)

lemma spec_excluded_not_listed: "spec_excluded i r \<Longrightarrow> \<not> route_listed i r"
  by (simp add: spec_excluded_def route_listed_def)

text \<open>
  C1: the specification leaves a route out only when its network and netmask are
  \<^verbatim>\<open>0.0.0.0\<close>, the interface declares \<^verbatim>\<open>gateway4\<close> and the route's gateway equals it.
  For the configuration of the module's docstring that rule keeps the route to
  \<^verbatim>\<open>172.100.100.0\<close>, but the filter of the code drops it: both dialects render the
  routes block with the default line alone.
\<close>

theorem docstring_route_dropped:
  \<open>routes docstring_eth0 = [docstring_route] \<and>
   spec_excluded docstring_eth0 docstring_route = False \<and>
   route_listed docstring_eth0 docstring_route = False \<and>
   routes_block example_host ''eth0'' docstring_eth0 =
     Inr [''routes_eth0="'', ''  default via 192.168.0.1'', ''"'', ''''] \<and>
   routes_block_legacy ''eth0'' docstring_eth0 =
     [''routes_eth0=('', ''  "default via 192.168.0.1"'', '')'', '''']\<close>
  by (simp add: docstring_eth0_def docstring_route_def spec_excluded_def route_listed_def
      routes_block_def routes_block_legacy_def default_line_def default_line_legacy_def
      routes_open_def routes_open_legacy_def)

subsection \<open>The interface names returned\<close>

lemma collect_ok:
  "list_all (\<lambda>x. \<exists>y. f x = Inr y) xs \<Longrightarrow> \<exists>ys. collect f xs = Inr ys"
  by (induction xs) auto

lemma confd_net_loop_ifaces:
  "confd_net_loop h ifs ls S = Inr (ls', S') \<Longrightarrow> S' = S \<union> set (map fst ifs)"
proof (induction ifs arbitrary: ls S)
  case Nil
  then show ?case by simp
next
  case (Cons p ifs)
  obtain name i where p: "p = (name, i)" by (cases p)
  from Cons.prems p obtain new where
    "confd_net_loop h ifs (ls @ new) (insert name S) = Inr (ls', S')"
    by (auto split: sum.splits)
  from Cons.IH [OF this] show ?case by (simp add: p)
qed

lemma confd_net_loop_legacy_ifaces:
  "snd (confd_net_loop_legacy ifs ls S) = S \<union> set (map fst ifs)"
proof (induction ifs arbitrary: ls S)
  case Nil
  then show ?case by simp
next
  case (Cons p ifs)
  obtain name i where p: "p = (name, i)" by (cases p)
  show ?case by (simp add: p Cons.IH)
qed

lemma confd_net_loop_ok:
  "list_all (\<lambda>(name, i). \<exists>new. confd_net_iface h name i = Inr new) ifs
   \<Longrightarrow> \<exists>r. confd_net_loop h ifs ls S = Inr r"
  by (induction ifs arbitrary: ls S) auto

lemma confd_net_iface_ok:
  assumes "list_all (\<lambda>ip. NETMASK_TO_PREFIXLEN h (ip4_netmask ip) \<noteq> None) (ip4s i)"
    and "list_all (\<lambda>r. NETMASK_TO_PREFIXLEN h (route_netmask r) \<noteq> None) (routes i)"
  shows "\<exists>new. confd_net_iface h name i = Inr new"
proof -
  have "list_all (\<lambda>ip. \<exists>y. ip4_line h ip = Inr y) (ip4s i)"
    using assms(1) by (auto simp: list_all_iff ip4_line_def)
  then obtain a4 where a4: "collect (ip4_line h) (ip4s i) = Inr a4"
    using collect_ok by blast
  have "list_all (\<lambda>r. \<exists>y. route_line h r = Inr y) (filter (route_listed i) (routes i))"
    using assms(2) by (auto simp: list_all_iff route_line_def)
  then obtain rs where rs: "collect (route_line h) (filter (route_listed i) (routes i)) = Inr rs"
    using collect_ok by blast
  show ?thesis
    by (simp add: confd_net_iface_def config_block_def routes_block_def a4 rs)
qed

lemma confd_net_file_ifaces:
  assumes "confd_net_file h now ifs = Inr (text, S)"
  shows "S = set (map fst ifs)"
proof -
  from assms obtain ls where
    "confd_net_loop h ifs [header h now, '''', modules_line h, '''', ''''] {} = Inr (ls, S)"
    by (auto simp: confd_net_file_def split: sum.splits)
  from confd_net_loop_ifaces [OF this] show ?thesis by simp
qed

lemma confd_net_file_legacy_ifaces:
  "snd (confd_net_file_legacy h now ifs) = set (map fst ifs)"
proof -
  have "snd (confd_net_loop_legacy ifs [header h now, '''', modules_line h, '''', ''''] {})
        = set (map fst ifs)"
    by (simp add: confd_net_loop_legacy_ifaces)
  then show ?thesis
    by (cases "confd_net_loop_legacy ifs [header h now, '''', modules_line h, '''', ''''] {}")
      (simp add: confd_net_file_legacy_def)
qed

lemma confd_net_file_ok:
  assumes "netmasks_valid h ifs"
  shows "\<exists>text. confd_net_file h now ifs = Inr (text, set (map fst ifs))"
proof -
  have "list_all (\<lambda>(name, i). \<exists>new. confd_net_iface h name i = Inr new) ifs"
    using assms confd_net_iface_ok
    by (auto simp: netmasks_valid_def list_all_iff)
  from confd_net_loop_ok [OF this] obtain ls S where
    r: "confd_net_loop h ifs [header h now, '''', modules_line h, '''', ''''] {} = Inr (ls, S)"
    by fastforce
  then have c: "confd_net_file h now ifs = Inr (join ''\<newline>'' ls, S)"
    by (simp add: confd_net_file_def)
  from confd_net_file_ifaces [OF c] c show ?thesis by blast
qed

text \<open>
  C3: when every netmask of an IPv4 address and of a route is in the table, both
  renderings return, and the set of names they return is the set of keys of the mapping.
\<close>

theorem render_names_eq_keys:
  assumes "netmasks_valid h ifs"
  shows "(\<exists>text. confd_net_file h now ifs = Inr (text, set (map fst ifs))) \<and>
         snd (confd_net_file_legacy h now ifs) = set (map fst ifs)"
  using confd_net_file_ok [OF assms] confd_net_file_legacy_ifaces by blast

theorem render_names_eq_keys_witness:
  "netmasks_valid example_host three_interfaces \<and>
   (\<exists>text. confd_net_file example_host ''2011-06-01'' three_interfaces
              = Inr (text, {''eth0'', ''eth1'', ''eth2''})) \<and>
   snd (confd_net_file_legacy example_host ''2011-06-01'' three_interfaces)
     = {''eth0'', ''eth1'', ''eth2''}"
proof -
  have v: "netmasks_valid example_host three_interfaces"
    by (simp add: netmasks_valid_def example_host_def three_interfaces_def example_eth0_def
        docstring_eth0_def docstring_route_def)
  have k: "set (map fst three_interfaces) = {''eth0'', ''eth1'', ''eth2''}"
    by (simp add: three_interfaces_def)
  show ?thesis
    using v render_names_eq_keys [OF v, of "''2011-06-01''"] unfolding k by simp
qed

subsection \<open>Applying a configuration\<close>

lemma restart_iface_effect:
  "restart_iface w n s =
     (restart_status w n,
      s\<lparr>init_scripts := insert (scriptpath_of n) (init_scripts s),
         procs := procs s @ [InitScriptRestart n]\<rparr>)"
  by (simp add: restart_iface_def scriptpath_of_def Let_def insert_absorb)

text \<open>One turn of the loop whose flush (if any) and restart both end with status 0.\<close>

lemma restart_loop_pass:
  assumes "ip_is_system_command (this_host w) \<longrightarrow> flush_status w n = 0"
    and "restart_status w n = 0"
  shows "restart_loop w (n # rest) status s =
           restart_loop w rest (Some 0)
             (s\<lparr>init_scripts := insert (scriptpath_of n) (init_scripts s),
                procs := procs s @ procs_of w n\<rparr>)"
  using assms
  by (simp add: restart_iface_effect clean_assigned_ip_def procs_of_def Let_def)

lemma restart_loop_restart_fails_here:
  assumes "ip_is_system_command (this_host w) \<longrightarrow> flush_status w n = 0"
    and "restart_status w n \<noteq> 0"
  shows "restart_loop w (n # rest) status s =
           (Inr (500, ''Couldn't restart network '' @ n @ '': '' @ str_int (restart_status w n)),
            s\<lparr>init_scripts := insert (scriptpath_of n) (init_scripts s),
               procs := procs s @ procs_of w n\<rparr>)"
  using assms
  by (simp add: restart_iface_effect clean_assigned_ip_def procs_of_def Let_def)

lemma restart_loop_flush_fails_here:
  assumes "ip_is_system_command (this_host w)" and "flush_status w n \<noteq> 0"
  shows "restart_loop w (n # rest) status s =
           ((case status of
               None \<Rightarrow> Inl (UnboundLocalError ''status'')
             | Some st \<Rightarrow> Inr (500, ''Couldn't flush network '' @ n @ '': '' @ str_int st)),
            s\<lparr>procs := procs s @ [IpAddressFlush n]\<rparr>)"
  using assms
  by (simp add: clean_assigned_ip_def Let_def split: option.splits)

lemma restart_loop_restart_fails:
  assumes "\<forall>m\<in>set pre. (ip_is_system_command (this_host w) \<longrightarrow> flush_status w m = 0) \<and>
                         restart_status w m = 0"
    and "ip_is_system_command (this_host w) \<longrightarrow> flush_status w n = 0"
    and "restart_status w n \<noteq> 0"
  shows "\<exists>s'. restart_loop w (pre @ n # post) status s =
           (Inr (500, ''Couldn't restart network '' @ n @ '': '' @ str_int (restart_status w n)), s')
         \<and> files s' = files s \<and> live_hostname s' = live_hostname s
         \<and> init_scripts s' = init_scripts s \<union> scriptpath_of ` set (pre @ [n])
         \<and> procs s' = procs s @ concat (map (procs_of w) (pre @ [n]))"
  using assms(1)
proof (induction pre arbitrary: status s)
  case Nil
  show ?case
    using restart_loop_restart_fails_here [OF assms(2,3)] by simp
next
  case (Cons m pre)
  have m: "ip_is_system_command (this_host w) \<longrightarrow> flush_status w m = 0" "restart_status w m = 0"
    using Cons.prems by simp_all
  have rest: "\<forall>m\<in>set pre. (ip_is_system_command (this_host w) \<longrightarrow> flush_status w m = 0) \<and>
                         restart_status w m = 0"
    using Cons.prems by simp
  let ?s1 = "s\<lparr>init_scripts := insert (scriptpath_of m) (init_scripts s),
                procs := procs s @ procs_of w m\<rparr>"
  from Cons.IH [OF rest, of "Some 0" ?s1] obtain s' where
    s': "restart_loop w (pre @ n # post) (Some 0) ?s1 =
           (Inr (500, ''Couldn't restart network '' @ n @ '': '' @ str_int (restart_status w n)), s')"
      "files s' = files ?s1" "live_hostname s' = live_hostname ?s1"
      "init_scripts s' = init_scripts ?s1 \<union> scriptpath_of ` set (pre @ [n])"
      "procs s' = procs ?s1 @ concat (map (procs_of w) (pre @ [n]))"
    by blast
  have "restart_loop w ((m # pre) @ n # post) status s =
          restart_loop w (pre @ n # post) (Some 0) ?s1"
    using restart_loop_pass [OF m] by simp
  with s' show ?case by auto
qed

lemma procs_of_names: "p \<in> set (procs_of w m) \<Longrightarrow> p = IpAddressFlush m \<or> p = InitScriptRestart m"
  by (auto simp: procs_of_def split: if_splits)

text \<open>
  C6: when the walk over the interface names reaches an interface whose restart ends with
  a status other than 0, \<^verbatim>\<open>configure_network\<close> returns 500 with a message that names the
  interface and the status; the subprocesses run are those of the interfaces before it
  and its own, none of a later interface; the files written and the hostname set stay.
\<close>

theorem configure_network_restart_fails:
  assumes "render_net w ifs = Inr (data, ifaces)"
    and "sethostname_error w hostname = None"
    and "set_order w ifaces = pre @ n # post"
    and "distinct (set_order w ifaces)"
    and "\<forall>m\<in>set pre. (ip_is_system_command (this_host w) \<longrightarrow> flush_status w m = 0) \<and>
                         restart_status w m = 0"
    and "ip_is_system_command (this_host w) \<longrightarrow> flush_status w n = 0"
    and "restart_status w n \<noteq> 0"
  shows "\<exists>s'. configure_network w s hostname ifs =
           (Inr (500, ''Couldn't restart network '' @ n @ '': '' @ str_int (restart_status w n)), s')
         \<and> procs s' = procs s @ concat (map (procs_of w) (pre @ [n]))
         \<and> (\<forall>m\<in>set post. IpAddressFlush m \<notin> set (concat (map (procs_of w) (pre @ [n]))) \<and>
                            InitScriptRestart m \<notin> set (concat (map (procs_of w) (pre @ [n]))))
         \<and> init_scripts s' = init_scripts s \<union> scriptpath_of ` set (pre @ [n])
         \<and> files s' = files s ++ update_files w hostname ifs data
         \<and> live_hostname s' = hostname"
proof -
  let ?s1 = "s\<lparr>files := files s ++ update_files w hostname ifs data, live_hostname := hostname\<rparr>"
  have c: "configure_network w s hostname ifs = restart_loop w (pre @ n # post) None ?s1"
    using assms(1,2,3) by (simp add: configure_network_def Let_def)
  from restart_loop_restart_fails [OF assms(5,6,7), of post None ?s1] obtain s' where
    s': "restart_loop w (pre @ n # post) None ?s1 =
           (Inr (500, ''Couldn't restart network '' @ n @ '': '' @ str_int (restart_status w n)), s')"
      "files s' = files ?s1" "live_hostname s' = live_hostname ?s1"
      "init_scripts s' = init_scripts ?s1 \<union> scriptpath_of ` set (pre @ [n])"
      "procs s' = procs ?s1 @ concat (map (procs_of w) (pre @ [n]))"
    by blast
  have later: "\<forall>m\<in>set post. IpAddressFlush m \<notin> set (concat (map (procs_of w) (pre @ [n]))) \<and>
                            InitScriptRestart m \<notin> set (concat (map (procs_of w) (pre @ [n])))"
  proof
    fix m assume m: "m \<in> set post"
    have d: "distinct (pre @ n # post)" using assms(3,4) by simp
    with m have "m \<notin> set (pre @ [n])" by auto
    then show "IpAddressFlush m \<notin> set (concat (map (procs_of w) (pre @ [n]))) \<and>
               InitScriptRestart m \<notin> set (concat (map (procs_of w) (pre @ [n])))"
      using procs_of_names by fastforce
  qed
  from c s' later show ?thesis by simp
qed

theorem configure_network_restart_fails_witness:
  "render_net restart_fails_world three_interfaces =
     Inr (fst (confd_net_file_legacy example_host ''2011-06-01 12:00:00.000001'' three_interfaces),
          {''eth0'', ''eth1'', ''eth2''}) \<and>
   sethostname_error restart_fails_world ''myhost'' = None \<and>
   set_order restart_fails_world {''eth0'', ''eth1'', ''eth2''} = [''eth1''] @ ''eth0'' # [''eth2''] \<and>
   restart_status restart_fails_world ''eth1'' = 0 \<and>
   restart_status restart_fails_world ''eth0'' \<noteq> 0 \<and>
   (\<exists>s'. configure_network restart_fails_world example_system ''myhost'' three_interfaces =
           (Inr (500, ''Couldn't restart network eth0: 256''), s') \<and>
         procs s' = [IpAddressFlush ''eth1'', InitScriptRestart ''eth1'',
                     IpAddressFlush ''eth0'', InitScriptRestart ''eth0''] \<and>
         init_scripts s' = {''/etc/init.d/net.eth1'', ''/etc/init.d/net.eth0''} \<and>
         files s' ''/etc/resolv.conf'' = Some ''nameserver 8.8.8.8'' \<and>
         live_hostname s' = ''myhost'')"
proof -
  let ?data = "fst (confd_net_file_legacy example_host ''2011-06-01 12:00:00.000001'' three_interfaces)"
  have k: "set (map fst three_interfaces) = {''eth0'', ''eth1'', ''eth2''}"
    by (simp add: three_interfaces_def)
  have r: "render_net restart_fails_world three_interfaces = Inr (?data, {''eth0'', ''eth1'', ''eth2''})"
    using confd_net_file_legacy_ifaces [of example_host "''2011-06-01 12:00:00.000001''" three_interfaces]
    unfolding k
    by (simp add: render_net_def restart_fails_world_def prod_eq_iff)
  have h: "sethostname_error restart_fails_world ''myhost'' = None"
    by (simp add: restart_fails_world_def)
  have o: "set_order restart_fails_world {''eth0'', ''eth1'', ''eth2''} = [''eth1''] @ ''eth0'' # [''eth2'']"
    by (simp add: restart_fails_world_def)
  have d: "distinct (set_order restart_fails_world {''eth0'', ''eth1'', ''eth2''})"
    by (simp add: restart_fails_world_def)
  have p: "\<forall>m\<in>set [''eth1'']. (ip_is_system_command (this_host restart_fails_world) \<longrightarrow>
              flush_status restart_fails_world m = 0) \<and> restart_status restart_fails_world m = 0"
    by (simp add: restart_fails_world_def)
  have f: "ip_is_system_command (this_host restart_fails_world) \<longrightarrow>
              flush_status restart_fails_world ''eth0'' = 0"
    by (simp add: restart_fails_world_def)
  have n: "restart_status restart_fails_world ''eth0'' \<noteq> 0"
    by (simp add: restart_fails_world_def)
  have n1: "restart_status restart_fails_world ''eth1'' = 0"
    by (simp add: restart_fails_world_def)
  have s256: "str_int (restart_status restart_fails_world ''eth0'') = ''256''"
    by (simp add: restart_fails_world_def str_int_def str_nat.simps digit_char_def)
  have ip: "ip_is_system_command (this_host restart_fails_world)"
    by (simp add: restart_fails_world_def example_host_def)
  have u: "update_files restart_fails_world ''myhost'' three_interfaces ?data ''/etc/resolv.conf''
             = Some ''nameserver 8.8.8.8''"
    by (simp add: update_files_def restart_fails_world_def HOSTNAME_FILE_def NETWORK_FILE_def)
  from configure_network_restart_fails [OF r h o d p f n, of example_system]
  obtain s' where s':
    "configure_network restart_fails_world example_system ''myhost'' three_interfaces =
       (Inr (500, ''Couldn't restart network '' @ ''eth0'' @ '': '' @
          str_int (restart_status restart_fails_world ''eth0'')), s')"
    "procs s' = procs example_system @ concat (map (procs_of restart_fails_world) ([''eth1''] @ [''eth0'']))"
    "init_scripts s' = init_scripts example_system \<union> scriptpath_of ` set ([''eth1''] @ [''eth0''])"
    "files s' = files example_system ++ update_files restart_fails_world ''myhost'' three_interfaces ?data"
    "live_hostname s' = ''myhost''"
    by blast
  have "configure_network restart_fails_world example_system ''myhost'' three_interfaces =
           (Inr (500, ''Couldn't restart network eth0: 256''), s')"
    using s'(1) by (simp add: s256)
  moreover have "procs s' = [IpAddressFlush ''eth1'', InitScriptRestart ''eth1'',
                     IpAddressFlush ''eth0'', InitScriptRestart ''eth0'']"
    using s'(2) ip by (simp add: procs_of_def example_system_def)
  moreover have "init_scripts s' = {''/etc/init.d/net.eth1'', ''/etc/init.d/net.eth0''}"
    using s'(3) by (simp add: scriptpath_of_def example_system_def)
  moreover have "files s' ''/etc/resolv.conf'' = Some ''nameserver 8.8.8.8''"
    using s'(4) u by (simp add: map_add_def)
  ultimately show ?thesis
    using r h o n n1 s'(5) by blast
qed

lemma configure_network_flush_fails_first:
  assumes "render_net w ifs = Inr (data, ifaces)"
    and "sethostname_error w hostname = None"
    and "set_order w ifaces = n # rest"
    and "ip_is_system_command (this_host w)"
    and "flush_status w n \<noteq> 0"
  shows "configure_network w s hostname ifs =
           (Inl (UnboundLocalError ''status''),
            s\<lparr>files := files s ++ update_files w hostname ifs data, live_hostname := hostname,
               procs := procs s @ [IpAddressFlush n]\<rparr>)"
  using assms(1,2,3) restart_loop_flush_fails_here [OF assms(4,5), of rest None]
  by (simp add: configure_network_def Let_def)

lemma configure_network_flush_fails_later:
  assumes "render_net w ifs = Inr (data, ifaces)"
    and "sethostname_error w hostname = None"
    and "set_order w ifaces = m # pre @ n # post"
    and "\<forall>m'\<in>set (m # pre). flush_status w m' = 0 \<and> restart_status w m' = 0"
    and "ip_is_system_command (this_host w)"
    and "flush_status w n \<noteq> 0"
  shows "fst (configure_network w s hostname ifs) =
           Inr (500, ''Couldn't flush network '' @ n @ '': '' @ str_int 0)"
proof -
  have loop: "fst (restart_loop w (xs @ n # post) (Some 0) s0) =
           Inr (500, ''Couldn't flush network '' @ n @ '': '' @ str_int 0)"
    if "\<forall>m'\<in>set xs. flush_status w m' = 0 \<and> restart_status w m' = 0" for xs s0
    using that
  proof (induction xs arbitrary: s0)
    case Nil
    show ?case using restart_loop_flush_fails_here [OF assms(5,6), of post "Some 0" s0] by simp
  next
    case (Cons x xs)
    have "restart_loop w ((x # xs) @ n # post) (Some 0) s0 =
            restart_loop w (xs @ n # post) (Some 0)
              (s0\<lparr>init_scripts := insert (scriptpath_of x) (init_scripts s0),
                  procs := procs s0 @ procs_of w x\<rparr>)"
      using restart_loop_pass [of w x "xs @ n # post" "Some 0" s0] Cons.prems by simp
    with Cons show ?case by simp
  qed
  let ?s1 = "s\<lparr>files := files s ++ update_files w hostname ifs data, live_hostname := hostname\<rparr>"
  have "configure_network w s hostname ifs = restart_loop w (m # pre @ n # post) None ?s1"
    using assms(1,2,3) by (simp add: configure_network_def Let_def)
  also have "\<dots> = restart_loop w (pre @ n # post) (Some 0)
              (?s1\<lparr>init_scripts := insert (scriptpath_of m) (init_scripts ?s1),
                  procs := procs ?s1 @ procs_of w m\<rparr>)"
    using restart_loop_pass [of w m "pre @ n # post" None ?s1] assms(4) by simp
  finally show ?thesis using loop [of pre] assms(4) by simp
qed

text \<open>
  C2: the only interface is eth0, the \<^verbatim>\<open>ip\<close> command is there and the address flush ends
  with status 2.  The specification promises the result
  \<^verbatim>\<open>(500, "Couldn't flush network eth0: 2")\<close>; the code reads its local variable
  \<^verbatim>\<open>status\<close>, which no restart has assigned yet, and leaves with an
  \<^verbatim>\<open>UnboundLocalError\<close>.  The flush is the only subprocess run.
\<close>

theorem flush_failure_unbound_status:
  "ip_is_system_command (this_host flush_fails_world) = True \<and>
   flush_status flush_fails_world ''eth0'' = 2 \<and>
   fst (configure_network flush_fails_world example_system ''myhost'' [(''eth0'', example_eth0)])
     = Inl (UnboundLocalError ''status'') \<and>
   procs (snd (configure_network flush_fails_world example_system ''myhost''
                 [(''eth0'', example_eth0)])) = [IpAddressFlush ''eth0'']"
proof -
  have v: "netmasks_valid example_host [(''eth0'', example_eth0)]"
    by (simp add: netmasks_valid_def example_host_def example_eth0_def)
  from confd_net_file_ok [OF v, of "''2011-06-01 12:00:00.000001''"] obtain data where
    "confd_net_file example_host ''2011-06-01 12:00:00.000001'' [(''eth0'', example_eth0)]
       = Inr (data, {''eth0''})"
    by auto
  then have r: "render_net flush_fails_world [(''eth0'', example_eth0)] = Inr (data, {''eth0''})"
    by (simp add: render_net_def flush_fails_world_def)
  have h: "sethostname_error flush_fails_world ''myhost'' = None"
    by (simp add: flush_fails_world_def)
  have o: "set_order flush_fails_world {''eth0''} = ''eth0'' # []"
    by (simp add: flush_fails_world_def)
  have ip: "ip_is_system_command (this_host flush_fails_world)"
    by (simp add: flush_fails_world_def example_host_def)
  have f: "flush_status flush_fails_world ''eth0'' = 2"
    by (simp add: flush_fails_world_def)
  have f0: "flush_status flush_fails_world ''eth0'' \<noteq> 0"
    by (simp add: f)
  show ?thesis
    using configure_network_flush_fails_first [OF r h o ip f0, of example_system] ip f
    by (simp add: example_system_def)
qed

subsection \<open>Reading the hostname\<close>

lemma first_hostname_none:
  "(\<forall>l\<in>set ls. re_search l = None) \<Longrightarrow> first_hostname ls = None"
  by (induction ls) auto

lemma first_hostname_first:
  "(\<forall>l'\<in>set pre. re_search l' = None) \<Longrightarrow> re_search l = Some g
   \<Longrightarrow> first_hostname (pre @ l # post) = Some g"
  by (induction pre) auto

text \<open>
  C8: \<^verbatim>\<open>get_hostname\<close> returns the group captured in the first line of the hostname file
  that matches \<^verbatim>\<open>HOSTNAME="(.*)"\<close>; it returns \<^verbatim>\<open>None\<close> when no line matches, and
  also when opening or reading the file raises, whatever the exception says.
\<close>

theorem get_hostname_cases:
  "(fs HOSTNAME_FILE = Inl e \<longrightarrow> get_hostname fs = None) \<and>
   (fs HOSTNAME_FILE = Inr content \<and> (\<forall>l\<in>set (readlines content). re_search l = None)
      \<longrightarrow> get_hostname fs = None) \<and>
   (fs HOSTNAME_FILE = Inr content \<and> readlines content = pre @ l # post \<and>
    (\<forall>l'\<in>set pre. re_search l' = None) \<and> re_search l = Some g
      \<longrightarrow> get_hostname fs = Some g)"
  by (simp add: get_hostname_def first_hostname_none first_hostname_first)

theorem get_hostname_cases_witness:
  \<open>missing_fs HOSTNAME_FILE = Inl ''[Errno 2] No such file or directory'' \<and>
   get_hostname missing_fs = None \<and>
   other_fs HOSTNAME_FILE = Inr ''# no name here\<newline>hostname=x\<newline>'' \<and>
   get_hostname other_fs = None \<and>
   written_fs HOSTNAME_FILE =
     Inr (get_hostname_file example_host ''2011-06-01 12:00:00.000002'' ''myhost'') \<and>
   re_search ''HOSTNAME="myhost"'' = Some ''myhost'' \<and>
   get_hostname written_fs = Some ''myhost''\<close>
proof -
  let ?content = "get_hostname_file example_host ''2011-06-01 12:00:00.000002'' ''myhost''"
  let ?pre = "[''# Set to the hostname of this machine\<newline>'',
       ''# Creator: NOVA AGENT:\<newline>'',
       ''        # This file was autogenerated at 2011-06-01 12:00:00.000002 by nova-agent.\<newline>'',
       ''        # While it can still be managed manually, definitely not recommended.\<newline>'',
       ''        \<newline>'']"
  have m: "missing_fs HOSTNAME_FILE = Inl ''[Errno 2] No such file or directory''"
    by (simp add: missing_fs_def)
  have o: "other_fs HOSTNAME_FILE = Inr ''# no name here\<newline>hostname=x\<newline>''"
    by (simp add: other_fs_def)
  have o_none: "\<forall>l\<in>set (readlines ''# no name here\<newline>hostname=x\<newline>''). re_search l = None"
    by (simp add: match_here_def)
  have w: "written_fs HOSTNAME_FILE = Inr ?content"
    by (simp add: written_fs_def)
  have w_lines: \<open>readlines ?content = ?pre @ ''HOSTNAME="myhost"'' # []\<close>
    by (simp add: get_hostname_file_def header_def example_host_def)
  have w_pre: "\<forall>l'\<in>set ?pre. re_search l' = None"
    by (simp add: match_here_def)
  have w_hit: \<open>re_search ''HOSTNAME="myhost"'' = Some ''myhost''\<close>
    by (simp add: match_here_def)
  from get_hostname_cases [of missing_fs "''[Errno 2] No such file or directory''"] m
  have 1: "get_hostname missing_fs = None" by blast
  from get_hostname_cases [of other_fs _ "''# no name here\<newline>hostname=x\<newline>''"] o o_none
  have 2: "get_hostname other_fs = None" by blast
  from get_hostname_cases [of written_fs _ ?content ?pre \<open>''HOSTNAME="myhost"''\<close> "[]" "''myhost''"]
    w w_lines w_pre w_hit
  have 3: "get_hostname written_fs = Some ''myhost''" by blast
  from m o w w_hit 1 2 3 show ?thesis by blast
qed

subsection \<open>Lines of a text\<close>

lemma text_lines_nonempty [simp]: "text_lines s \<noteq> []"
  by (induction s) (auto split: list.splits)

lemma text_lines_no_newline: "no_newline s \<Longrightarrow> text_lines s = [s]"
  by (induction s) (auto simp: no_newline_def)

lemma text_lines_newline: "text_lines (a @ CHR ''\<newline>'' # b) = text_lines a @ text_lines b"
proof (induction a)
  case Nil
  show ?case by simp
next
  case (Cons c a)
  obtain l ls where "text_lines a = l # ls"
    by (cases "text_lines a") simp_all
  with Cons show ?case by simp
qed

lemma text_lines_prepend:
  "no_newline a \<Longrightarrow> text_lines (a @ b) = (a @ hd (text_lines b)) # tl (text_lines b)"
proof (induction a)
  case Nil
  show ?case by simp
next
  case (Cons c a)
  then have "c \<noteq> CHR ''\<newline>''" "no_newline a" by (auto simp: no_newline_def)
  with Cons.IH show ?case by simp
qed

lemma text_lines_join:
  "items \<noteq> [] \<Longrightarrow> text_lines (join ''\<newline>'' items) = concat (map text_lines items)"
proof (induction "''\<newline>''" items rule: join.induct)
  case 1
  then show ?case by simp
next
  case (2 x)
  show ?case by simp
next
  case (3 x y ys)
  have "join ''\<newline>'' (x # y # ys) = x @ CHR ''\<newline>'' # join ''\<newline>'' (y # ys)" by simp
  then show ?case using 3 by (simp only: text_lines_newline) simp
qed

lemma lines_of_append [simp]: "lines_of (xs @ ys) = lines_of xs @ lines_of ys"
  by (simp add: lines_of_def)

lemma lines_of_Cons: "lines_of (x # xs) = text_lines x @ lines_of xs"
  by (simp add: lines_of_def)

lemma lines_of_Nil [simp]: "lines_of [] = []"
  by (simp add: lines_of_def)

lemma lines_of_plain: "list_all no_newline items \<Longrightarrow> lines_of items = items"
  by (induction items) (simp_all add: lines_of_Cons text_lines_no_newline)

subsection \<open>Strings without newline, filler lines\<close>

lemma no_newline_append [simp]: "no_newline (a @ b) \<longleftrightarrow> no_newline a \<and> no_newline b"
  by (auto simp: no_newline_def)

lemma no_newline_Cons [simp]: "no_newline (c # s) \<longleftrightarrow> c \<noteq> CHR ''\<newline>'' \<and> no_newline s"
  by (auto simp: no_newline_def)

lemma no_newline_Nil [simp]: "no_newline []"
  by (simp add: no_newline_def)

lemma no_equals_append [simp]: "no_equals (a @ b) \<longleftrightarrow> no_equals a \<and> no_equals b"
  by (auto simp: no_equals_def)

lemma no_equals_Cons [simp]: "no_equals (c # s) \<longleftrightarrow> c \<noteq> CHR ''='' \<and> no_equals s"
  by (auto simp: no_equals_def)

lemma no_equals_Nil [simp]: "no_equals []"
  by (simp add: no_equals_def)

lemma digit_char_in: "d < 10 \<Longrightarrow> digit_char d \<in> set ''0123456789''"
  unfolding digit_char_def by (rule nth_mem) simp

lemma str_nat_digits: "set (str_nat n) \<subseteq> set ''0123456789''"
proof (induction n rule: str_nat.induct)
  case (1 n)
  show ?case
  proof (cases "n < 10")
    case True
    then show ?thesis
      using digit_char_in [of n] by (subst str_nat.simps) simp
  next
    case False
    have "n mod 10 < 10" by simp
    from digit_char_in [OF this] "1" False show ?thesis
      by (subst str_nat.simps) simp
  qed
qed

lemma no_newline_str_nat [simp]: "no_newline (str_nat n)"
  using str_nat_digits [of n] by (auto simp: no_newline_def)

lemma filler_hash [simp]: "filler (CHR ''#'' # s)"
  by (simp add: filler_def)

lemma filler_space [simp]: "filler (CHR '' '' # s)"
  by (simp add: filler_def)

lemma filler_m [simp]: "filler (CHR ''m'' # s)"
  by (simp add: filler_def)

lemma filler_no_equals: "no_equals l \<Longrightarrow> filler l"
  by (simp add: filler_def)

lemma filler_not_c: "filler l \<Longrightarrow> l \<noteq> CHR ''c'' # a @ CHR ''='' # b"
  by (auto simp: filler_def)

lemma filler_not_r: "filler l \<Longrightarrow> l \<noteq> CHR ''r'' # a @ CHR ''='' # b"
  by (auto simp: filler_def)

lemma filler_not_d: "filler l \<Longrightarrow> \<not> prefix (CHR ''d'' # a @ CHR ''='' # b) l"
proof
  assume f: "filler l" and p: "prefix (CHR ''d'' # a @ CHR ''='' # b) l"
  from p obtain z where l: "l = CHR ''d'' # a @ CHR ''='' # b @ z"
    by (auto simp: prefix_def)
  with f show False by (simp add: filler_def)
qed

lemma config_open_shape: \<open>config_open n = CHR ''c'' # (''onfig_'' @ n) @ CHR ''='' # ''"''\<close>
  by (simp add: config_open_def)

lemma routes_open_shape: \<open>routes_open n = CHR ''r'' # (''outes_'' @ n) @ CHR ''='' # ''"''\<close>
  by (simp add: routes_open_def)

lemma config_open_legacy_shape: "config_open_legacy n = CHR ''c'' # (''onfig_'' @ n) @ CHR ''='' # ''(''"
  by (simp add: config_open_legacy_def)

lemma routes_open_legacy_shape: "routes_open_legacy n = CHR ''r'' # (''outes_'' @ n) @ CHR ''='' # ''(''"
  by (simp add: routes_open_legacy_def)

lemma dns_open_shape: "dns_open n = CHR ''d'' # (''ns_servers_'' @ n) @ CHR ''='' # []"
  by (simp add: dns_open_def)

lemma filler_not_opening:
  assumes "filler l"
  shows "l \<noteq> config_open n" "l \<noteq> routes_open n" "l \<noteq> config_open_legacy n"
    "l \<noteq> routes_open_legacy n" "\<not> prefix (dns_open n) l"
  using assms filler_not_c filler_not_r filler_not_d
  unfolding config_open_shape routes_open_shape config_open_legacy_shape
    routes_open_legacy_shape dns_open_shape
  by blast+

lemma dns_line_not_opening:
  assumes "prefix (dns_open m) l"
  shows "l \<noteq> config_open n" "l \<noteq> routes_open n" "l \<noteq> config_open_legacy n"
    "l \<noteq> routes_open_legacy n"
  using assms
  by (auto simp: prefix_def dns_open_def config_open_def routes_open_def
      config_open_legacy_def routes_open_legacy_def)

lemma opening_not_dns:
  "\<not> prefix (dns_open m) (config_open n)" "\<not> prefix (dns_open m) (routes_open n)"
  "\<not> prefix (dns_open m) (config_open_legacy n)" "\<not> prefix (dns_open m) (routes_open_legacy n)"
  by (simp_all add: dns_open_def config_open_def routes_open_def
      config_open_legacy_def routes_open_legacy_def)

lemma opening_inject [simp]:
  "config_open n = config_open m \<longleftrightarrow> n = m" "routes_open n = routes_open m \<longleftrightarrow> n = m"
  "config_open_legacy n = config_open_legacy m \<longleftrightarrow> n = m"
  "routes_open_legacy n = routes_open_legacy m \<longleftrightarrow> n = m"
  by (simp_all add: config_open_def routes_open_def config_open_legacy_def routes_open_legacy_def)

lemma opening_distinct [simp]:
  "config_open n \<noteq> routes_open m" "routes_open n \<noteq> config_open m"
  "config_open_legacy n \<noteq> routes_open_legacy m" "routes_open_legacy n \<noteq> config_open_legacy m"
  by (simp_all add: config_open_def routes_open_def config_open_legacy_def routes_open_legacy_def)

lemma prefix_snoc_same:
  assumes "prefix (a @ [c]) (b @ [c])" and "c \<notin> set a" and "c \<notin> set b"
  shows "a = b"
proof -
  from assms(1) obtain z where z: "b @ [c] = a @ [c] @ z" by (auto simp: prefix_def)
  show ?thesis
  proof (cases z rule: rev_cases)
    case Nil
    with z show ?thesis by simp
  next
    case (snoc z' c')
    with z have "b = a @ [c] @ z'" by simp
    with assms(3) show ?thesis by simp
  qed
qed

lemma dns_open_same:
  assumes "prefix (dns_open n) l" and "prefix (dns_open m) l"
    and "no_equals n" and "no_equals m"
  shows "n = m"
proof -
  from assms(1,2) have "prefix (dns_open n) (dns_open m) \<or> prefix (dns_open m) (dns_open n)"
    by (rule prefix_same_cases)
  then have "prefix (n @ ''='') (m @ ''='') \<or> prefix (m @ ''='') (n @ ''='')"
    by (simp add: dns_open_def)
  then show ?thesis
    using prefix_snoc_same [of n "CHR ''=''" m] prefix_snoc_same [of m "CHR ''=''" n] assms(3,4)
    by (auto simp: no_equals_def)
qed

subsection \<open>The lines of one interface\<close>

lemma shaped_count:
  assumes "shaped copen ropen dopen has_dns ls"
    and "\<And>l. filler l \<Longrightarrow> l \<noteq> x" and "\<And>l. prefix dopen l \<Longrightarrow> l \<noteq> x"
  shows "count_list ls x = (if copen = x then 1 else 0) + (if ropen = x then 1 else 0)"
proof -
  from assms(1) obtain A B C where
    ls: "ls = A @ [copen] @ B @ [ropen] @ C" and
    AB: "list_all filler (A @ B)" and
    C: "list_all (\<lambda>l. filler l \<or> has_dns \<and> prefix dopen l) C"
    unfolding shaped_def by blast
  have "x \<notin> set A" "x \<notin> set B" using AB assms(2) by (auto simp: list_all_iff)
  moreover have "x \<notin> set C" using C assms(2,3) by (auto simp: list_all_iff)
  ultimately have "count_list A x = 0" "count_list B x = 0" "count_list C x = 0"
    by (simp_all add: count_list_0_iff)
  then show ?thesis by (simp add: ls)
qed

lemma shaped_dns:
  assumes "shaped copen ropen dopen has_dns ls"
    and "\<not> prefix d copen" and "\<not> prefix d ropen"
    and "\<And>l. filler l \<Longrightarrow> \<not> prefix d l"
    and "\<And>l. prefix dopen l \<Longrightarrow> prefix d l \<Longrightarrow> dopen = d"
  shows "list_ex (prefix d) ls \<longleftrightarrow> has_dns \<and> dopen = d"
proof -
  from assms(1) obtain A B C where
    ls: "ls = A @ [copen] @ B @ [ropen] @ C" and
    AB: "list_all filler (A @ B)" and
    C: "list_all (\<lambda>l. filler l \<or> has_dns \<and> prefix dopen l) C" and
    ex: "has_dns \<longrightarrow> list_ex (prefix dopen) C"
    unfolding shaped_def by blast
  have nA: "\<not> list_ex (prefix d) A" and nB: "\<not> list_ex (prefix d) B"
    using AB assms(4) by (auto simp: list_all_iff list_ex_iff)
  have "list_ex (prefix d) ls \<longleftrightarrow> list_ex (prefix d) C"
    using nA nB assms(2,3) by (simp add: ls)
  also have "\<dots> \<longleftrightarrow> has_dns \<and> dopen = d"
  proof
    assume "list_ex (prefix d) C"
    then obtain l where l: "l \<in> set C" "prefix d l" by (auto simp: list_ex_iff)
    with C have "filler l \<or> has_dns \<and> prefix dopen l" by (auto simp: list_all_iff)
    with l(2) assms(4,5) show "has_dns \<and> dopen = d" by blast
  next
    assume "has_dns \<and> dopen = d"
    with ex show "list_ex (prefix d) C" by simp
  qed
  finally show ?thesis .
qed

lemma collect_elems:
  "collect f xs = Inr ys \<Longrightarrow> y \<in> set ys \<Longrightarrow> \<exists>x\<in>set xs. f x = Inr y"
proof (induction xs arbitrary: ys)
  case Nil
  then show ?case by simp
next
  case (Cons x xs)
  then show ?case by (auto split: sum.splits)
qed

lemma label_lines_plain:
  "no_newline (py_str (label i)) \<Longrightarrow> list_all no_newline (label_lines i) \<and> list_all filler (label_lines i)"
  by (simp add: label_lines_def)

lemma default_line_plain:
  "plain_gateway g \<Longrightarrow> list_all no_newline (default_line g) \<and> list_all filler (default_line g)"
  by (simp add: default_line_def plain_gateway_def split: option.splits)

lemma default_line_legacy_plain:
  "plain_gateway g \<Longrightarrow>
   list_all no_newline (default_line_legacy g) \<and> list_all filler (default_line_legacy g)"
  by (simp add: default_line_legacy_def plain_gateway_def split: option.splits)

lemma ip4_lines_plain:
  assumes "collect (ip4_line h) ips = Inr a4"
    and "list_all (\<lambda>ip. no_newline (ip4_address ip) \<and> no_newline (ip4_netmask ip)) ips"
  shows "list_all no_newline a4 \<and> list_all filler a4"
proof -
  have "no_newline y \<and> filler y" if "y \<in> set a4" for y
  proof -
    from collect_elems [OF assms(1) that] obtain ip where
      ip: "ip \<in> set ips" "ip4_line h ip = Inr y" by blast
    with assms(2) have "no_newline (ip4_address ip)" by (auto simp: list_all_iff)
    with ip(2) show ?thesis by (auto simp: ip4_line_def split: option.splits)
  qed
  then show ?thesis by (simp add: list_all_iff)
qed

lemma route_lines_plain:
  assumes "collect (route_line h) rs = Inr ls"
    and "list_all (\<lambda>r. no_newline (route_network r) \<and> no_newline (route_netmask r) \<and>
                    no_newline (route_gateway r)) rs"
  shows "list_all no_newline ls \<and> list_all filler ls"
proof -
  have "no_newline y \<and> filler y" if "y \<in> set ls" for y
  proof -
    from collect_elems [OF assms(1) that] obtain r where
      r: "r \<in> set rs" "route_line h r = Inr y" by blast
    with assms(2) have "no_newline (route_network r)" "no_newline (route_gateway r)"
      by (auto simp: list_all_iff)
    with r(2) show ?thesis by (auto simp: route_line_def split: option.splits)
  qed
  then show ?thesis by (simp add: list_all_iff)
qed

lemma ip6_lines_plain:
  "list_all (\<lambda>ip. no_newline (ip6_address ip)) ips \<Longrightarrow>
   list_all no_newline (map ip6_line ips) \<and> list_all filler (map ip6_line ips)"
  by (induction ips) (simp_all add: ip6_line_def)

lemma ip4_lines_legacy_plain:
  "list_all (\<lambda>ip. no_newline (ip4_address ip) \<and> no_newline (ip4_netmask ip)) ips \<Longrightarrow>
   list_all no_newline (map ip4_line_legacy ips) \<and> list_all filler (map ip4_line_legacy ips)"
  by (induction ips) (simp_all add: ip4_line_legacy_def)

lemma ip6_lines_legacy_plain:
  "list_all (\<lambda>ip. no_newline (ip6_address ip)) ips \<Longrightarrow>
   list_all no_newline (map ip6_line_legacy ips) \<and> list_all filler (map ip6_line_legacy ips)"
  by (induction ips) (simp_all add: ip6_line_legacy_def)

lemma route_lines_legacy_plain:
  "list_all (\<lambda>r. no_newline (route_network r) \<and> no_newline (route_netmask r) \<and>
                 no_newline (route_gateway r)) rs \<Longrightarrow>
   list_all no_newline (map route_line_legacy rs) \<and> list_all filler (map route_line_legacy rs)"
  by (induction rs) (simp_all add: route_line_legacy_def)

lemma list_all_filter: "list_all P xs \<Longrightarrow> list_all P (filter Q xs)"
  by (simp add: list_all_iff)

lemma text_lines_join_append:
  "ds \<noteq> [] \<Longrightarrow> list_all no_newline ds \<Longrightarrow> no_newline q
   \<Longrightarrow> text_lines (join ''\<newline>'' ds @ q) = butlast ds @ [last ds @ q]"
proof (induction "''\<newline>''" ds rule: join.induct)
  case 1
  then show ?case by simp
next
  case (2 x)
  then show ?case by (simp add: text_lines_no_newline)
next
  case (3 x y ys)
  have "join ''\<newline>'' (x # y # ys) @ q = x @ CHR ''\<newline>'' # (join ''\<newline>'' (y # ys) @ q)"
    by simp
  then have "text_lines (join ''\<newline>'' (x # y # ys) @ q)
               = text_lines x @ text_lines (join ''\<newline>'' (y # ys) @ q)"
    by (simp only: text_lines_newline)
  with 3 show ?case by (simp add: text_lines_no_newline)
qed

lemma dns_block_lines:
  assumes "no_newline n" and "list_all (\<lambda>d. no_newline d \<and> no_equals d) (dns i)"
  shows "list_all (\<lambda>l. filler l \<or> dns i \<noteq> [] \<and> prefix (dns_open n) l) (lines_of (dns_block n i)) \<and>
         (dns i \<noteq> [] \<longrightarrow> list_ex (prefix (dns_open n)) (lines_of (dns_block n i)))"
proof (cases "dns i = []")
  case True
  then show ?thesis by (simp add: dns_block_def)
next
  case False
  let ?q = "[CHR 0x22]"
  let ?P = "dns_open n @ ?q"
  let ?X = "butlast (dns i) @ [last (dns i) @ ?q]"
  have nl: "list_all no_newline (dns i)" and ne: "list_all no_equals (dns i)"
    using assms(2) by (auto simp: list_all_iff)
  have X: "text_lines (join ''\<newline>'' (dns i) @ ?q) = ?X"
    using text_lines_join_append [OF False nl, of ?q] by simp
  have P: "no_newline ?P" using assms(1) by (simp add: dns_open_def)
  have item: "''dns_servers_'' @ n @ ''='' @ ?q @ join ''\<newline>'' (dns i) @ ?q @ ''\<newline>''
                = (?P @ (join ''\<newline>'' (dns i) @ ?q)) @ CHR ''\<newline>'' # []"
    by (simp add: dns_open_def)
  have "text_lines (''dns_servers_'' @ n @ ''='' @ ?q @ join ''\<newline>'' (dns i) @ ?q @ ''\<newline>'')
          = text_lines (?P @ (join ''\<newline>'' (dns i) @ ?q)) @ text_lines []"
    unfolding item by (rule text_lines_newline)
  also have "\<dots> = ((?P @ hd ?X) # tl ?X) @ [[]]"
    using text_lines_prepend [OF P, of "join ''\<newline>'' (dns i) @ ?q"] X by simp
  finally have lines: "lines_of (dns_block n i) = (?P @ hd ?X) # tl ?X @ [[], []]"
    using False by (simp add: dns_block_def lines_of_Cons)
  have "no_equals l" if "l \<in> set ?X" for l
  proof -
    from that have "l \<in> set (butlast (dns i)) \<or> l = last (dns i) @ ?q" by auto
    moreover have "last (dns i) \<in> set (dns i)" using False by simp
    ultimately show ?thesis
      using ne in_set_butlastD [of l "dns i"] by (auto simp: list_all_iff)
  qed
  moreover have "set (tl ?X) \<subseteq> set ?X"
    by (metis list.set_sel(2) subsetI tl_Nil)
  ultimately have tl: "list_all filler (tl ?X)"
    by (auto simp: list_all_iff intro: filler_no_equals)
  have first: "prefix (dns_open n) (?P @ hd ?X)" by simp
  from tl have tl': "list_all (\<lambda>l. filler l \<or> dns i \<noteq> [] \<and> prefix (dns_open n) l) (tl ?X)"
    by (auto simp: list_all_iff)
  from tl' first False show ?thesis
    unfolding lines by (simp add: filler_no_equals)
qed

lemma dns_block_legacy_lines:
  assumes "no_newline n" and "list_all (\<lambda>d. no_newline d \<and> no_equals d) (dns i)"
  shows "list_all (\<lambda>l. filler l \<or> dns i \<noteq> [] \<and> prefix (dns_open n) l)
           (lines_of (dns_block_legacy n i)) \<and>
         (dns i \<noteq> [] \<longrightarrow> list_ex (prefix (dns_open n)) (lines_of (dns_block_legacy n i)))"
proof (cases "dns i = []")
  case True
  then show ?thesis by (simp add: dns_block_legacy_def)
next
  case False
  let ?q = "[CHR 0x22]"
  let ?entries = "map (\<lambda>d. '' '' @ ?q @ d @ ?q) (dns i)"
  have e: "list_all no_newline ?entries \<and> list_all filler ?entries"
    using assms(2) by (induction "dns i") (auto simp: list_all_iff)
  have "list_all no_newline ([dns_open n @ ''(''] @ ?entries @ ['')'', ''''])"
    using e assms(1) by (simp add: dns_open_def)
  from lines_of_plain [OF this] False
  have lines: "lines_of (dns_block_legacy n i) = [dns_open n @ ''(''] @ ?entries @ ['')'', '''']"
    by (simp add: dns_block_legacy_def dns_open_def)
  show ?thesis
    unfolding lines using e False
    by (simp add: filler_no_equals list_all_iff)
qed

lemma confd_net_iface_shaped:
  assumes "confd_net_iface h n i = Inr b" and "no_newline n" and "plain_interface i"
  shows "shaped (config_open n) (routes_open n) (dns_open n) (dns i \<noteq> []) (lines_of b)"
proof -
  let ?q = "[CHR 0x22]"
  from assms(1) obtain a4 rs where
    a4: "collect (ip4_line h) (ip4s i) = Inr a4" and
    rs: "collect (route_line h) (filter (route_listed i) (routes i)) = Inr rs" and
    b: "b = label_lines i @ [config_open n] @ (a4 @ map ip6_line (ip6s i) @ [?q, []])
              @ [routes_open n]
              @ (rs @ default_line (gateway4 i) @ default_line (gateway6 i) @ [?q, []])
              @ dns_block n i"
    by (auto simp: confd_net_iface_def config_block_def routes_block_def split: sum.splits)
  let ?A = "label_lines i"
  let ?B = "a4 @ map ip6_line (ip6s i) @ [?q, []]"
  let ?C0 = "rs @ default_line (gateway4 i) @ default_line (gateway6 i) @ [?q, []]"
  have pl: "no_newline (py_str (label i))"
    "list_all (\<lambda>ip. no_newline (ip4_address ip) \<and> no_newline (ip4_netmask ip)) (ip4s i)"
    "list_all (\<lambda>ip. no_newline (ip6_address ip)) (ip6s i)"
    "list_all (\<lambda>r. no_newline (route_network r) \<and> no_newline (route_netmask r) \<and>
                    no_newline (route_gateway r)) (filter (route_listed i) (routes i))"
    "plain_gateway (gateway4 i)" "plain_gateway (gateway6 i)"
    "list_all (\<lambda>d. no_newline d \<and> no_equals d) (dns i)"
    using assms(3) by (simp_all add: plain_interface_def list_all_filter)
  have A: "list_all no_newline ?A \<and> list_all filler ?A"
    using label_lines_plain [OF pl(1)] .
  have B: "list_all no_newline ?B \<and> list_all filler ?B"
    using ip4_lines_plain [OF a4 pl(2)] ip6_lines_plain [OF pl(3)]
    by (simp add: filler_no_equals)
  have C0: "list_all no_newline ?C0 \<and> list_all filler ?C0"
    using route_lines_plain [OF rs pl(4)] default_line_plain [OF pl(5)]
      default_line_plain [OF pl(6)]
    by (simp add: filler_no_equals)
  have opens: "text_lines (config_open n) = [config_open n]"
    "text_lines (routes_open n) = [routes_open n]"
    using assms(2) by (simp_all add: text_lines_no_newline config_open_def routes_open_def)
  have lines: "lines_of b = ?A @ [config_open n] @ ?B @ [routes_open n]
                 @ (?C0 @ lines_of (dns_block n i))"
    unfolding b
    using A B C0 opens
    by (simp add: lines_of_plain lines_of_Cons del: append_assoc)
  have C: "list_all (\<lambda>l. filler l \<or> dns i \<noteq> [] \<and> prefix (dns_open n) l)
             (?C0 @ lines_of (dns_block n i))"
    using C0 dns_block_lines [OF assms(2) pl(7)] by (auto simp: list_all_iff)
  have ex: "dns i \<noteq> [] \<longrightarrow> list_ex (prefix (dns_open n)) (?C0 @ lines_of (dns_block n i))"
    using dns_block_lines [OF assms(2) pl(7)] by simp
  have AB: "list_all filler (?A @ ?B)" using A B by simp
  show ?thesis
    unfolding shaped_def using lines AB C ex by blast
qed

lemma confd_net_iface_legacy_shaped:
  assumes "no_newline n" and "plain_interface i"
  shows "shaped (config_open_legacy n) (routes_open_legacy n) (dns_open n) (dns i \<noteq> [])
           (lines_of (confd_net_iface_legacy n i))"
proof -
  let ?A = "label_lines i"
  let ?B = "map ip4_line_legacy (ip4s i) @ map ip6_line_legacy (ip6s i) @ ['')'', []]"
  let ?C0 = "map route_line_legacy (filter (route_listed i) (routes i))
               @ default_line_legacy (gateway4 i) @ default_line_legacy (gateway6 i) @ ['')'', []]"
  have b: "confd_net_iface_legacy n i =
             ?A @ [config_open_legacy n] @ ?B @ [routes_open_legacy n] @ ?C0
               @ dns_block_legacy n i"
    by (simp add: confd_net_iface_legacy_def config_block_legacy_def routes_block_legacy_def)
  have pl: "no_newline (py_str (label i))"
    "list_all (\<lambda>ip. no_newline (ip4_address ip) \<and> no_newline (ip4_netmask ip)) (ip4s i)"
    "list_all (\<lambda>ip. no_newline (ip6_address ip)) (ip6s i)"
    "list_all (\<lambda>r. no_newline (route_network r) \<and> no_newline (route_netmask r) \<and>
                    no_newline (route_gateway r)) (filter (route_listed i) (routes i))"
    "plain_gateway (gateway4 i)" "plain_gateway (gateway6 i)"
    "list_all (\<lambda>d. no_newline d \<and> no_equals d) (dns i)"
    using assms(2) by (simp_all add: plain_interface_def list_all_filter)
  have A: "list_all no_newline ?A \<and> list_all filler ?A"
    using label_lines_plain [OF pl(1)] .
  have B: "list_all no_newline ?B \<and> list_all filler ?B"
    using ip4_lines_legacy_plain [OF pl(2)] ip6_lines_legacy_plain [OF pl(3)]
    by (simp add: filler_no_equals)
  have C0: "list_all no_newline ?C0 \<and> list_all filler ?C0"
    using route_lines_legacy_plain [OF pl(4)] default_line_legacy_plain [OF pl(5)]
      default_line_legacy_plain [OF pl(6)]
    by (simp add: filler_no_equals)
  have opens: "text_lines (config_open_legacy n) = [config_open_legacy n]"
    "text_lines (routes_open_legacy n) = [routes_open_legacy n]"
    using assms(1)
    by (simp_all add: text_lines_no_newline config_open_legacy_def routes_open_legacy_def)
  have lines: "lines_of (confd_net_iface_legacy n i) =
                 ?A @ [config_open_legacy n] @ ?B @ [routes_open_legacy n]
                 @ (?C0 @ lines_of (dns_block_legacy n i))"
    unfolding b
    using A B C0 opens
    by (simp add: lines_of_plain lines_of_Cons del: append_assoc)
  have C: "list_all (\<lambda>l. filler l \<or> dns i \<noteq> [] \<and> prefix (dns_open n) l)
             (?C0 @ lines_of (dns_block_legacy n i))"
    using C0 dns_block_legacy_lines [OF assms(1) pl(7)] by (auto simp: list_all_iff)
  have ex: "dns i \<noteq> [] \<longrightarrow>
              list_ex (prefix (dns_open n)) (?C0 @ lines_of (dns_block_legacy n i))"
    using dns_block_legacy_lines [OF assms(1) pl(7)] by simp
  have AB: "list_all filler (?A @ ?B)" using A B by simp
  show ?thesis
    unfolding shaped_def using lines AB C ex by blast
qed

subsection \<open>The lines before the first interface\<close>

lemma header_split:
  "header h now =
     ''# Creator: NOVA AGENT:'' @ CHR ''\<newline>'' #
     (''        # This file was autogenerated at '' @ now @ '' by '' @ argv0 h @ ''.'')
       @ CHR ''\<newline>'' #
     ''        # While it can still be managed manually, definitely not recommended.''
       @ CHR ''\<newline>'' # ''        ''"
  by (simp add: header_def)

lemma header_lines:
  assumes "no_newline now" and "no_newline (argv0 h)"
  shows "text_lines (header h now) =
     [''# Creator: NOVA AGENT:'',
      ''        # This file was autogenerated at '' @ now @ '' by '' @ argv0 h @ ''.'',
      ''        # While it can still be managed manually, definitely not recommended.'',
      ''        '']"
proof -
  have 1: "text_lines ''# Creator: NOVA AGENT:'' = [''# Creator: NOVA AGENT:'']"
    by (rule text_lines_no_newline) simp
  have 2: "text_lines (''        # This file was autogenerated at '' @ now @ '' by '' @ argv0 h @ ''.'')
      = [''        # This file was autogenerated at '' @ now @ '' by '' @ argv0 h @ ''.'']"
    by (rule text_lines_no_newline) (simp add: assms)
  have 3: "text_lines ''        # While it can still be managed manually, definitely not recommended.''
      = [''        # While it can still be managed manually, definitely not recommended.'']"
    by (rule text_lines_no_newline) simp
  have 4: "text_lines ''        '' = [''        '']"
    by (rule text_lines_no_newline) simp
  show ?thesis
    unfolding header_split text_lines_newline 1 2 3 4 by simp
qed

lemma preamble_filler:
  assumes "no_newline now" and "no_newline (argv0 h)"
  shows "list_all filler (lines_of [header h now, '''', modules_line h, '''', ''''])"
proof -
  have m: "text_lines (modules_line h) = [modules_line h]"
    by (rule text_lines_no_newline) (simp add: modules_line_def)
  have fm: "filler (modules_line h)" by (simp add: modules_line_def)
  show ?thesis
    using fm by (simp add: lines_of_Cons header_lines [OF assms] m filler_no_equals)
qed

subsection \<open>The lines of the whole text\<close>

lemma confd_net_loop_blocks:
  "confd_net_loop h ifs ls S = Inr (ls', S') \<Longrightarrow>
   \<exists>bs. list_all2 (\<lambda>p b. confd_net_iface h (fst p) (snd p) = Inr b) ifs bs \<and> ls' = ls @ concat bs"
proof (induction ifs arbitrary: ls S)
  case Nil
  then show ?case by simp
next
  case (Cons p ifs)
  obtain name i where p: "p = (name, i)" by (cases p)
  from Cons.prems p obtain new where
    new: "confd_net_iface h name i = Inr new" and
    "confd_net_loop h ifs (ls @ new) (insert name S) = Inr (ls', S')"
    by (auto split: sum.splits)
  from Cons.IH [OF this(2)] obtain bs where
    "list_all2 (\<lambda>p b. confd_net_iface h (fst p) (snd p) = Inr b) ifs bs" "ls' = (ls @ new) @ concat bs"
    by blast
  with new p have
    "list_all2 (\<lambda>p b. confd_net_iface h (fst p) (snd p) = Inr b) (p # ifs) (new # bs) \<and>
     ls' = ls @ concat (new # bs)"
    by simp
  then show ?case by blast
qed

lemma confd_net_loop_legacy_lines:
  "fst (confd_net_loop_legacy ifs ls S) =
     ls @ concat (map (\<lambda>p. confd_net_iface_legacy (fst p) (snd p)) ifs)"
proof (induction ifs arbitrary: ls S)
  case Nil
  then show ?case by simp
next
  case (Cons p ifs)
  obtain name i where p: "p = (name, i)" by (cases p)
  show ?case by (simp add: p Cons.IH)
qed

lemma blocks_count:
  assumes "list_all2 R ifs bs"
    and "\<And>p b. p \<in> set ifs \<Longrightarrow> R p b \<Longrightarrow>
            count_list (lines_of b) x = (if fst p = name then 1 else 0)"
  shows "count_list (lines_of (concat bs)) x = count_list (map fst ifs) name"
  using assms
proof (induction rule: list_all2_induct)
  case Nil
  then show ?case by simp
next
  case (Cons p ifs b bs)
  have "count_list (lines_of b) x = (if fst p = name then 1 else 0)"
    using Cons.prems [of p b] Cons.hyps(1) by simp
  moreover have "count_list (lines_of (concat bs)) x = count_list (map fst ifs) name"
    using Cons.IH Cons.prems by simp
  ultimately show ?case by simp
qed

lemma blocks_dns:
  assumes "list_all2 R ifs bs"
    and "\<And>p b. p \<in> set ifs \<Longrightarrow> R p b \<Longrightarrow>
            list_ex P (lines_of b) \<longleftrightarrow> dns (snd p) \<noteq> [] \<and> fst p = name"
  shows "list_ex P (lines_of (concat bs)) \<longleftrightarrow> (\<exists>i. (name, i) \<in> set ifs \<and> dns i \<noteq> [])"
  using assms
proof (induction rule: list_all2_induct)
  case Nil
  then show ?case by simp
next
  case (Cons p ifs b bs)
  have 1: "list_ex P (lines_of b) \<longleftrightarrow> dns (snd p) \<noteq> [] \<and> fst p = name"
    using Cons.prems [of p b] Cons.hyps(1) by simp
  have 2: "list_ex P (lines_of (concat bs)) \<longleftrightarrow> (\<exists>i. (name, i) \<in> set ifs \<and> dns i \<noteq> [])"
    using Cons.IH Cons.prems by simp
  obtain n i where p: "p = (n, i)" by (cases p)
  show ?case using 1 2 by (auto simp: p)
qed

lemma count_list_distinct: "distinct xs \<Longrightarrow> x \<in> set xs \<Longrightarrow> count_list xs x = 1"
  by (induction xs) (auto simp: count_list_0_iff)

lemma confd_net_file_lines:
  assumes "confd_net_file h now ifs = Inr (text, S)"
  shows "\<exists>bs. list_all2 (\<lambda>p b. confd_net_iface h (fst p) (snd p) = Inr b) ifs bs \<and>
           text_lines text =
             lines_of [header h now, '''', modules_line h, '''', ''''] @ lines_of (concat bs)"
proof -
  from assms obtain ls where
    loop: "confd_net_loop h ifs [header h now, '''', modules_line h, '''', ''''] {} = Inr (ls, S)"
    and tx: "text = join ''\<newline>'' ls"
    by (auto simp: confd_net_file_def split: sum.splits)
  from confd_net_loop_blocks [OF loop] obtain bs where
    bs: "list_all2 (\<lambda>p b. confd_net_iface h (fst p) (snd p) = Inr b) ifs bs"
    and ls: "ls = [header h now, '''', modules_line h, '''', ''''] @ concat bs"
    by blast
  have "ls \<noteq> []" using ls by simp
  from text_lines_join [OF this] have "text_lines text = lines_of ls"
    by (simp add: tx lines_of_def)
  then have "text_lines text =
      lines_of [header h now, '''', modules_line h, '''', ''''] @ lines_of (concat bs)"
    unfolding ls by (simp only: lines_of_append)
  with bs show ?thesis by blast
qed

lemma confd_net_file_legacy_lines:
  "text_lines (fst (confd_net_file_legacy h now ifs)) =
     lines_of [header h now, '''', modules_line h, '''', '''']
       @ lines_of (concat (map (\<lambda>p. confd_net_iface_legacy (fst p) (snd p)) ifs))"
proof -
  let ?pre = "[header h now, '''', modules_line h, '''', '''']"
  let ?ls = "fst (confd_net_loop_legacy ifs ?pre {})"
  have ls: "?ls = ?pre @ concat (map (\<lambda>p. confd_net_iface_legacy (fst p) (snd p)) ifs)"
    by (rule confd_net_loop_legacy_lines)
  then have "?ls \<noteq> []" by simp
  from text_lines_join [OF this] have "text_lines (join ''\<newline>'' ?ls) = lines_of ?ls"
    by (simp add: lines_of_def)
  moreover have "fst (confd_net_file_legacy h now ifs) = join ''\<newline>'' ?ls"
    by (cases "confd_net_loop_legacy ifs ?pre {}") (simp add: confd_net_file_legacy_def)
  ultimately show ?thesis unfolding ls by (simp only: lines_of_append)
qed

lemma plain_interfaces_member:
  "plain_interfaces ifs \<Longrightarrow> p \<in> set ifs \<Longrightarrow> no_newline (fst p) \<and> plain_interface (snd p)"
  by (auto simp: plain_interfaces_def list_all_iff)

lemma count_opening:
  assumes "list_all filler pre" and "list_all2 R ifs bs"
    and "\<And>p b. p \<in> set ifs \<Longrightarrow> R p b \<Longrightarrow>
            shaped (copen (fst p)) (ropen (fst p)) (dns_open (fst p)) (dns (snd p) \<noteq> []) (lines_of b)"
    and "\<And>l. filler l \<Longrightarrow> l \<noteq> x"
    and "\<And>l m. prefix (dns_open m) l \<Longrightarrow> l \<noteq> x"
    and "\<And>m. (if copen m = x then 1 else 0) + (if ropen m = x then 1 else 0)
              = (if m = name then 1 else (0::nat))"
    and "distinct (map fst ifs)" and "name \<in> set (map fst ifs)"
  shows "count_list (pre @ lines_of (concat bs)) x = 1"
proof -
  have "x \<notin> set pre" using assms(1,4) by (auto simp: list_all_iff)
  then have pre: "count_list pre x = 0" by (simp add: count_list_0_iff)
  have "count_list (lines_of b) x = (if fst p = name then 1 else 0)"
    if "p \<in> set ifs" "R p b" for p b
    using shaped_count [OF assms(3) [OF that], of x] assms(4,5,6) by simp
  from blocks_count [OF assms(2) this]
  have "count_list (lines_of (concat bs)) x = count_list (map fst ifs) name" by simp
  with pre count_list_distinct [OF assms(7,8)] show ?thesis by simp
qed

text \<open>
  C4, amended: for a mapping with valid netmasks in which no string holds a newline and no
  DNS entry holds an equals sign, and a header whose program name and time hold no
  newline, the text of each dialect has, for every interface name of the mapping, exactly
  one line that is the opening of its config block and exactly one that is the opening of
  its routes block.
\<close>

theorem one_opening_per_interface:
  assumes "distinct (map fst ifs)" and "netmasks_valid h ifs"
    and "plain_interfaces ifs" and "no_newline now" and "no_newline (argv0 h)"
    and "name \<in> set (map fst ifs)"
  shows "(\<exists>text S. confd_net_file h now ifs = Inr (text, S) \<and>
            openings text (config_open name) = 1 \<and> openings text (routes_open name) = 1) \<and>
         openings (fst (confd_net_file_legacy h now ifs)) (config_open_legacy name) = 1 \<and>
         openings (fst (confd_net_file_legacy h now ifs)) (routes_open_legacy name) = 1"
proof -
  let ?pre = "lines_of [header h now, '''', modules_line h, '''', '''']"
  have pre: "list_all filler ?pre" by (rule preamble_filler [OF assms(4,5)])
  from confd_net_file_ok [OF assms(2), of now] obtain data where
    r: "confd_net_file h now ifs = Inr (data, set (map fst ifs))" by blast
  from confd_net_file_lines [OF r] obtain bs where
    bs: "list_all2 (\<lambda>p b. confd_net_iface h (fst p) (snd p) = Inr b) ifs bs" and
    lines: "text_lines data = ?pre @ lines_of (concat bs)"
    by blast
  have sh: "shaped (config_open (fst p)) (routes_open (fst p)) (dns_open (fst p))
              (dns (snd p) \<noteq> []) (lines_of b)"
    if "p \<in> set ifs" "confd_net_iface h (fst p) (snd p) = Inr b" for p b
    using confd_net_iface_shaped [OF that(2)] plain_interfaces_member [OF assms(3) that(1)]
    by simp
  have c: "openings data (config_open name) = 1"
    unfolding openings_def lines
    by (rule count_opening [OF pre bs sh _ _ _ assms(1,6)])
      (simp_all add: filler_not_opening dns_line_not_opening)
  have rt: "openings data (routes_open name) = 1"
    unfolding openings_def lines
    by (rule count_opening [OF pre bs sh _ _ _ assms(1,6)])
      (simp_all add: filler_not_opening dns_line_not_opening)
  let ?bs = "map (\<lambda>p. confd_net_iface_legacy (fst p) (snd p)) ifs"
  have bsl: "list_all2 (\<lambda>p b. b = confd_net_iface_legacy (fst p) (snd p)) ifs ?bs"
    by (simp add: list_all2_map2 list_all2_same)
  have shl: "shaped (config_open_legacy (fst p)) (routes_open_legacy (fst p)) (dns_open (fst p))
              (dns (snd p) \<noteq> []) (lines_of b)"
    if "p \<in> set ifs" "b = confd_net_iface_legacy (fst p) (snd p)" for p b
    using confd_net_iface_legacy_shaped [of "fst p" "snd p"]
      plain_interfaces_member [OF assms(3) that(1)] that(2)
    by simp
  have cl: "openings (fst (confd_net_file_legacy h now ifs)) (config_open_legacy name) = 1"
    unfolding openings_def confd_net_file_legacy_lines
    by (rule count_opening [OF pre bsl shl _ _ _ assms(1,6)])
      (simp_all add: filler_not_opening dns_line_not_opening)
  have rl: "openings (fst (confd_net_file_legacy h now ifs)) (routes_open_legacy name) = 1"
    unfolding openings_def confd_net_file_legacy_lines
    by (rule count_opening [OF pre bsl shl _ _ _ assms(1,6)])
      (simp_all add: filler_not_opening dns_line_not_opening)
  from r c rt cl rl show ?thesis by blast
qed

theorem forged_label_repeats_opening:
  \<open>netmasks_valid example_host [(''eth0'', forged_config_eth0)] \<and>
   distinct (map fst [(''eth0'', forged_config_eth0)]) \<and>
   map_sum id (\<lambda>(text, ifaces). openings text (config_open ''eth0''))
     (confd_net_file example_host ''2011-06-01'' [(''eth0'', forged_config_eth0)]) = Inr 2 \<and>
   openings (fst (confd_net_file_legacy example_host ''2011-06-01'' [(''eth0'', forged_config_eth0)]))
     (config_open_legacy ''eth0'') = 2\<close>
  by code_simp

theorem forged_label_starts_dns_block:
  \<open>dns forged_dns_eth0 = [] \<and>
   map_sum id (\<lambda>(text, ifaces). dns_present text ''eth0'')
     (confd_net_file example_host ''2011-06-01'' [(''eth0'', forged_dns_eth0)]) = Inr True \<and>
   dns_present (fst (confd_net_file_legacy example_host ''2011-06-01'' [(''eth0'', forged_dns_eth0)]))
     ''eth0'' = True\<close>
  by code_simp

lemma dns_open_inject [simp]: "dns_open n = dns_open m \<longleftrightarrow> n = m"
  by (simp add: dns_open_def)

lemma dns_lines:
  assumes "list_all filler pre" and "list_all2 R ifs bs"
    and "\<And>p b. p \<in> set ifs \<Longrightarrow> R p b \<Longrightarrow>
            shaped (copen (fst p)) (ropen (fst p)) (dns_open (fst p)) (dns (snd p) \<noteq> []) (lines_of b)"
    and "\<And>m. \<not> prefix (dns_open name) (copen m)" and "\<And>m. \<not> prefix (dns_open name) (ropen m)"
    and "plain_names ifs" and "distinct (map fst ifs)" and "(name, i) \<in> set ifs"
  shows "list_ex (prefix (dns_open name)) (pre @ lines_of (concat bs)) \<longleftrightarrow> dns i \<noteq> []"
proof -
  have name: "no_equals name"
    using assms(6,8) by (auto simp: plain_names_def list_all_iff)
  have pre: "\<not> list_ex (prefix (dns_open name)) pre"
    using assms(1) filler_not_opening(5) by (auto simp: list_all_iff list_ex_iff)
  have block: "list_ex (prefix (dns_open name)) (lines_of b) \<longleftrightarrow> dns (snd p) \<noteq> [] \<and> fst p = name"
    if "p \<in> set ifs" "R p b" for p b
  proof -
    have n: "no_equals (fst p)"
      using assms(6) that(1) by (auto simp: plain_names_def list_all_iff)
    have same: "dns_open (fst p) = dns_open name"
      if "prefix (dns_open (fst p)) l" "prefix (dns_open name) l" for l
      using dns_open_same [OF that n name] by simp
    have "list_ex (prefix (dns_open name)) (lines_of b)
            \<longleftrightarrow> dns (snd p) \<noteq> [] \<and> dns_open (fst p) = dns_open name"
    proof (rule shaped_dns [OF assms(3) [OF that]])
      show "\<not> prefix (dns_open name) (copen (fst p))" by (rule assms(4))
      show "\<not> prefix (dns_open name) (ropen (fst p))" by (rule assms(5))
      show "\<And>l. filler l \<Longrightarrow> \<not> prefix (dns_open name) l" by (rule filler_not_opening(5))
      show "\<And>l. prefix (dns_open (fst p)) l \<Longrightarrow> prefix (dns_open name) l
              \<Longrightarrow> dns_open (fst p) = dns_open name"
        by (rule same)
    qed
    then show ?thesis by simp
  qed
  from blocks_dns [OF assms(2) block]
  have "list_ex (prefix (dns_open name)) (lines_of (concat bs))
          \<longleftrightarrow> (\<exists>i'. (name, i') \<in> set ifs \<and> dns i' \<noteq> [])"
    by simp
  also have "\<dots> \<longleftrightarrow> dns i \<noteq> []"
  proof
    assume "\<exists>i'. (name, i') \<in> set ifs \<and> dns i' \<noteq> []"
    then obtain i' where i': "(name, i') \<in> set ifs" "dns i' \<noteq> []" by blast
    from eq_key_imp_eq_value [OF assms(7) i'(1) assms(8)] i'(2) show "dns i \<noteq> []" by simp
  next
    assume "dns i \<noteq> []"
    with assms(8) show "\<exists>i'. (name, i') \<in> set ifs \<and> dns i' \<noteq> []" by blast
  qed
  finally show ?thesis using pre by simp
qed

text \<open>
  C5, amended: for a mapping in which no string holds a newline, no DNS entry and no
  interface name holds an equals sign, and a header whose program name and time hold no
  newline, the text of each dialect has a line that starts the DNS block of an interface
  exactly when the DNS sequence of that interface is not empty.
\<close>

theorem dns_block_iff_dns_entries:
  assumes "distinct (map fst ifs)" and "plain_interfaces ifs" and "plain_names ifs"
    and "no_newline now" and "no_newline (argv0 h)" and "(name, i) \<in> set ifs"
  shows "(\<forall>text S. confd_net_file h now ifs = Inr (text, S) \<longrightarrow>
            (dns_present text name \<longleftrightarrow> dns i \<noteq> [])) \<and>
         (dns_present (fst (confd_net_file_legacy h now ifs)) name \<longleftrightarrow> dns i \<noteq> [])"
proof -
  let ?pre = "lines_of [header h now, '''', modules_line h, '''', '''']"
  have pre: "list_all filler ?pre" by (rule preamble_filler [OF assms(4,5)])
  have openrc: "dns_present data name \<longleftrightarrow> dns i \<noteq> []"
    if r: "confd_net_file h now ifs = Inr (data, S)" for data S
  proof -
    from confd_net_file_lines [OF r] obtain bs where
      bs: "list_all2 (\<lambda>p b. confd_net_iface h (fst p) (snd p) = Inr b) ifs bs" and
      lines: "text_lines data = ?pre @ lines_of (concat bs)"
      by blast
    have sh: "shaped (config_open (fst p)) (routes_open (fst p)) (dns_open (fst p))
                (dns (snd p) \<noteq> []) (lines_of b)"
      if "p \<in> set ifs" "confd_net_iface h (fst p) (snd p) = Inr b" for p b
      using confd_net_iface_shaped [OF that(2)] plain_interfaces_member [OF assms(2) that(1)]
      by simp
    show ?thesis
      unfolding dns_present_def lines
      by (rule dns_lines [OF pre bs sh _ _ assms(3,1,6)]) (simp_all add: opening_not_dns)
  qed
  let ?bs = "map (\<lambda>p. confd_net_iface_legacy (fst p) (snd p)) ifs"
  have bsl: "list_all2 (\<lambda>p b. b = confd_net_iface_legacy (fst p) (snd p)) ifs ?bs"
    by (simp add: list_all2_map2 list_all2_same)
  have shl: "shaped (config_open_legacy (fst p)) (routes_open_legacy (fst p)) (dns_open (fst p))
              (dns (snd p) \<noteq> []) (lines_of b)"
    if "p \<in> set ifs" "b = confd_net_iface_legacy (fst p) (snd p)" for p b
    using confd_net_iface_legacy_shaped [of "fst p" "snd p"]
      plain_interfaces_member [OF assms(2) that(1)] that(2)
    by simp
  have legacy: "dns_present (fst (confd_net_file_legacy h now ifs)) name \<longleftrightarrow> dns i \<noteq> []"
    unfolding dns_present_def confd_net_file_legacy_lines
    by (rule dns_lines [OF pre bsl shl _ _ assms(3,1,6)]) (simp_all add: opening_not_dns)
  from openrc legacy show ?thesis by blast
qed

theorem one_opening_per_interface_witness:
  "distinct (map fst two_interfaces) \<and> netmasks_valid example_host two_interfaces \<and>
   plain_interfaces two_interfaces \<and> no_newline ''2011-06-01 12:00:00.000001'' \<and>
   no_newline (argv0 example_host) \<and> ''eth3'' \<in> set (map fst two_interfaces) \<and>
   (\<exists>text S. confd_net_file example_host ''2011-06-01 12:00:00.000001'' two_interfaces
                = Inr (text, S) \<and>
      openings text (config_open ''eth3'') = 1 \<and> openings text (routes_open ''eth3'') = 1) \<and>
   openings (fst (confd_net_file_legacy example_host ''2011-06-01 12:00:00.000001'' two_interfaces))
     (config_open_legacy ''eth3'') = 1 \<and>
   openings (fst (confd_net_file_legacy example_host ''2011-06-01 12:00:00.000001'' two_interfaces))
     (routes_open_legacy ''eth3'') = 1"
proof -
  have d: "distinct (map fst two_interfaces)" by code_simp
  have v: "netmasks_valid example_host two_interfaces" by code_simp
  have p: "plain_interfaces two_interfaces" by code_simp
  have t: "no_newline ''2011-06-01 12:00:00.000001''" by code_simp
  have a: "no_newline (argv0 example_host)" by code_simp
  have m: "''eth3'' \<in> set (map fst two_interfaces)" by code_simp
  from one_opening_per_interface [OF d v p t a m] d v p t a m show ?thesis by blast
qed

theorem dns_block_iff_dns_entries_witness:
  "distinct (map fst two_interfaces) \<and> plain_interfaces two_interfaces \<and>
   plain_names two_interfaces \<and> no_newline ''2011-06-01 12:00:00.000001'' \<and>
   no_newline (argv0 example_host) \<and>
   (''eth3'', resolver_eth3) \<in> set two_interfaces \<and> dns resolver_eth3 \<noteq> [] \<and>
   (''eth0'', example_eth0) \<in> set two_interfaces \<and> dns example_eth0 = [] \<and>
   (\<exists>text S. confd_net_file example_host ''2011-06-01 12:00:00.000001'' two_interfaces
                = Inr (text, S) \<and>
      dns_present text ''eth3'' \<and> \<not> dns_present text ''eth0'') \<and>
   dns_present (fst (confd_net_file_legacy example_host ''2011-06-01 12:00:00.000001''
                       two_interfaces)) ''eth3'' \<and>
   \<not> dns_present (fst (confd_net_file_legacy example_host ''2011-06-01 12:00:00.000001''
                       two_interfaces)) ''eth0''"
proof -
  have d: "distinct (map fst two_interfaces)" by code_simp
  have v: "netmasks_valid example_host two_interfaces" by code_simp
  have p: "plain_interfaces two_interfaces" by code_simp
  have q: "plain_names two_interfaces" by code_simp
  have t: "no_newline ''2011-06-01 12:00:00.000001''" by code_simp
  have a: "no_newline (argv0 example_host)" by code_simp
  have m3: "(''eth3'', resolver_eth3) \<in> set two_interfaces" by (simp add: two_interfaces_def)
  have m0: "(''eth0'', example_eth0) \<in> set two_interfaces" by (simp add: two_interfaces_def)
  have d3: "dns resolver_eth3 \<noteq> []" by (simp add: resolver_eth3_def)
  have d0: "dns example_eth0 = []" by (simp add: example_eth0_def)
  from confd_net_file_ok [OF v, of "''2011-06-01 12:00:00.000001''"] obtain data where
    r: "confd_net_file example_host ''2011-06-01 12:00:00.000001'' two_interfaces
          = Inr (data, set (map fst two_interfaces))"
    by blast
  from dns_block_iff_dns_entries [OF d p q t a m3] r d3
  have 3: "dns_present data ''eth3''"
    "dns_present (fst (confd_net_file_legacy example_host ''2011-06-01 12:00:00.000001''
                       two_interfaces)) ''eth3''"
    by blast+
  from dns_block_iff_dns_entries [OF d p q t a m0] r d0
  have 0: "\<not> dns_present data ''eth0''"
    "\<not> dns_present (fst (confd_net_file_legacy example_host ''2011-06-01 12:00:00.000001''
                       two_interfaces)) ''eth0''"
    by blast+
  from r 3 0 d p q t a m3 m0 d3 d0 show ?thesis by blast
qed

end
